theory Spec2Isabelle
  imports Main "HOL-Library.Word" "HOL-Library.Multiset" "HOL-Library.FSet" "HOL-Library.Sublist"
begin

section \<open>The file store that a move acts on\<close>

text \<open>
  A \<open>pathlib.Path\<close> is modelled by its parts (the list of its components); file
  contents are byte strings. The store that \<open>move_file\<close> mutates maps the paths of
  regular files to their contents and records which paths are directories.
\<close>

type_synonym bytes = "8 word list"
type_synonym path = "string list"

record fs =
  files :: "path \<rightharpoonup> bytes"
  dirs :: "path set"

text \<open>\<open>Path.exists()\<close>.\<close>

definition path_exists :: "fs \<Rightarrow> path \<Rightarrow> bool" where
  "path_exists s p = (files s p \<noteq> None \<or> p \<in> dirs s)"

text \<open>
  The exceptions that leave \<open>move_file\<close>: \<open>FileExistsError\<close> (the spec's
  DestinationExists), the two \<open>RuntimeError\<close>s (CopySizeMismatch and
  ChecksumMismatch) and any \<open>OSError\<close> with its errno (MoveError); the two
  that listing a directory can raise; and the one that \<open>int\<close> raises on an infinite
  float.
\<close>

datatype py_error =
    FileExistsError
  | RuntimeError_size_mismatch
  | RuntimeError_checksum_mismatch
  | OSError nat
  | PermissionError
  | NotADirectoryError
  | OverflowError

definition ENOENT :: nat where "ENOENT = 2"
definition EXDEV :: nat where "EXDEV = 18"

text \<open>
  What the operating system answers to the two calls whose outcome the program cannot
  know beforehand: \<open>Path.rename\<close> (done, or an \<open>OSError\<close> with an errno, \<open>EXDEV\<close>
  across filesystems) and \<open>shutil.copy2\<close> (done, with the bytes that arrived at the
  destination, or an \<open>OSError\<close> that leaves there whatever had been written).
\<close>

datatype rename_result = Renamed | RenameError nat
datatype copy_result = Copied bytes | CopyError nat "bytes option"

record os_env =
  rename_outcome :: "path \<Rightarrow> path \<Rightarrow> rename_result"
  copy_outcome :: "path \<Rightarrow> path \<Rightarrow> bytes \<Rightarrow> copy_result"

text \<open>Lines printed by the tools, as far as the properties below speak of them.\<close>

datatype event =
    Verified string
  | Moved path path
  | Failed path path py_error
  | Stopping nat nat
  | Summary nat
  | DirectoryHeader string

text \<open>
  \<open>compute_sha256\<close>: opening a missing file raises \<open>FileNotFoundError\<close>
  (an \<open>OSError\<close> with errno \<open>ENOENT\<close>). The hash function itself is a parameter.
\<close>

definition compute_sha256 :: "(bytes \<Rightarrow> string) \<Rightarrow> fs \<Rightarrow> path \<Rightarrow> py_error + string" where
  "compute_sha256 sha s p =
     (case files s p of None \<Rightarrow> Inl (OSError ENOENT) | Some b \<Rightarrow> Inr (sha b))"

text \<open>\<open>src.rename(dest)\<close>; a missing source is \<open>ENOENT\<close>.\<close>

definition rename :: "os_env \<Rightarrow> fs \<Rightarrow> path \<Rightarrow> path \<Rightarrow> nat + fs" where
  "rename env s src dest =
     (case files s src of
        None \<Rightarrow> Inl ENOENT
      | Some b \<Rightarrow>
          (case rename_outcome env src dest of
             RenameError e \<Rightarrow> Inl e
           | Renamed \<Rightarrow> Inr (s\<lparr>files := (files s)(src := None, dest \<mapsto> b)\<rparr>)))"

text \<open>\<open>shutil.copy2(src, dest)\<close>.\<close>

definition copy2 :: "os_env \<Rightarrow> fs \<Rightarrow> path \<Rightarrow> path \<Rightarrow> (py_error + unit) \<times> fs" where
  "copy2 env s src dest =
     (case files s src of
        None \<Rightarrow> (Inl (OSError ENOENT), s)
      | Some b \<Rightarrow>
          (case copy_outcome env src dest b of
             Copied w \<Rightarrow> (Inr (), s\<lparr>files := (files s)(dest \<mapsto> w)\<rparr>)
           | CopyError e left \<Rightarrow> (Inl (OSError e), s\<lparr>files := (files s)(dest := left)\<rparr>)))"

text \<open>\<open>p.stat().st_size\<close> and \<open>p.unlink()\<close>.\<close>

definition st_size :: "fs \<Rightarrow> path \<Rightarrow> py_error + nat" where
  "st_size s p = (case files s p of None \<Rightarrow> Inl (OSError ENOENT) | Some b \<Rightarrow> Inr (length b))"

definition unlink :: "fs \<Rightarrow> path \<Rightarrow> (py_error + unit) \<times> fs" where
  "unlink s p =
     (case files s p of
        None \<Rightarrow> (Inl (OSError ENOENT), s)
      | Some b \<Rightarrow> (Inr (), s\<lparr>files := (files s)(p := None)\<rparr>))"

section \<open>\<open>move_file\<close> of \<open>consolidate_files.py\<close>\<close>

text \<open>
  The part of \<open>move_file\<close> after the rename has failed with \<open>EXDEV\<close>
  (lines 115 to 130): copy, compare the sizes, compare the checksums when \<open>verify\<close>
  is set, delete the source. The result is the exception raised (if any), the store as the
  call leaves it, and the lines printed.
\<close>

definition copy_fallback ::
  "(bytes \<Rightarrow> string) \<Rightarrow> fs \<Rightarrow> path \<Rightarrow> path \<Rightarrow> bool \<Rightarrow> string option
     \<Rightarrow> (py_error + unit) \<times> fs \<times> event list" where
  "copy_fallback sha s1 src dest verify src_checksum =
     (case st_size s1 src of
        Inl e \<Rightarrow> (Inl e, s1, [])
      | Inr n \<Rightarrow>
          (case st_size s1 dest of
             Inl e \<Rightarrow> (Inl e, s1, [])
           | Inr m \<Rightarrow>
               if n \<noteq> m then
                 (case unlink s1 dest of
                    (Inl e, s2) \<Rightarrow> (Inl e, s2, [])
                  | (Inr u, s2) \<Rightarrow> (Inl RuntimeError_size_mismatch, s2, []))
               else if verify then
                 (case compute_sha256 sha s1 dest of
                    Inl e \<Rightarrow> (Inl e, s1, [])
                  | Inr dest_checksum \<Rightarrow>
                      if src_checksum \<noteq> Some dest_checksum then
                        (case unlink s1 dest of
                           (Inl e, s2) \<Rightarrow> (Inl e, s2, [])
                         | (Inr u, s2) \<Rightarrow> (Inl RuntimeError_checksum_mismatch, s2, []))
                      else
                        (case unlink s1 src of
                           (Inl e, s2) \<Rightarrow> (Inl e, s2, [Verified dest_checksum])
                         | (Inr u, s2) \<Rightarrow> (Inr (), s2, [Verified dest_checksum])))
               else
                 (case unlink s1 src of
                    (Inl e, s2) \<Rightarrow> (Inl e, s2, [])
                  | (Inr u, s2) \<Rightarrow> (Inr (), s2, []))))"

definition move_file ::
  "(bytes \<Rightarrow> string) \<Rightarrow> os_env \<Rightarrow> fs \<Rightarrow> path \<Rightarrow> path \<Rightarrow> bool
     \<Rightarrow> (py_error + unit) \<times> fs \<times> event list" where
  "move_file sha env s src dest verify =
     (if path_exists s dest then (Inl FileExistsError, s, [])
      else
        (case (if verify then map_sum id Some (compute_sha256 sha s src) else Inr None) of
           Inl e \<Rightarrow> (Inl e, s, [])
         | Inr src_checksum \<Rightarrow>
             (case rename env s src dest of
                Inr s' \<Rightarrow> (Inr (), s', [])
              | Inl e \<Rightarrow>
                  if e \<noteq> EXDEV then (Inl (OSError e), s, [])
                  else
                    (case copy2 env s src dest of
                       (Inl e', s1) \<Rightarrow> (Inl e', s1, [])
                     | (Inr u, s1) \<Rightarrow> copy_fallback sha s1 src dest verify src_checksum))))"

section \<open>\<open>move_file\<close> of \<open>split_dir.py\<close>\<close>

definition split_move_file :: "os_env \<Rightarrow> fs \<Rightarrow> path \<Rightarrow> path \<Rightarrow> (py_error + unit) \<times> fs" where
  "split_move_file env s src dest =
     (if path_exists s dest then (Inl FileExistsError, s)
      else
        (case rename env s src dest of
           Inr s' \<Rightarrow> (Inr (), s')
         | Inl e \<Rightarrow>
             if e \<noteq> EXDEV then (Inl (OSError e), s)
             else
               (case copy2 env s src dest of
                  (Inl e', s1) \<Rightarrow> (Inl e', s1)
                | (Inr u, s1) \<Rightarrow>
                    (case st_size s1 src of
                       Inl e' \<Rightarrow> (Inl e', s1)
                     | Inr n \<Rightarrow>
                         (case st_size s1 dest of
                            Inl e' \<Rightarrow> (Inl e', s1)
                          | Inr m \<Rightarrow>
                              if n \<noteq> m then
                                (case unlink s1 dest of
                                   (Inl e', s2) \<Rightarrow> (Inl e', s2)
                                 | (Inr u', s2) \<Rightarrow> (Inl RuntimeError_size_mismatch, s2))
                              else unlink s1 src)))))"

section \<open>Bin packing of \<open>split_dir.py\<close>\<close>

text \<open>
  An entry of the list \<open>files\<close> is a name with the size that \<open>stat\<close> reported
  (a byte count, so a natural number). \<open>files.sort(key=lambda x: x[1], reverse=True)\<close>
  is Python's stable sort run in reverse: the list is reversed, sorted stably in ascending
  order of the key, and reversed again.
\<close>

type_synonym entry = "string \<times> nat"

definition sort_desc :: "entry list \<Rightarrow> entry list" where
  "sort_desc file_list = rev (sort_key snd (rev file_list))"

text \<open>
  The inner loop (lines 161 to 166): the index of the first element of \<open>batch_sizes\<close>
  to which the size can be added without exceeding \<open>max_size\<close>, if there is one.
\<close>

fun first_fit :: "nat list \<Rightarrow> nat \<Rightarrow> nat \<Rightarrow> nat option" where
  "first_fit [] sz max_size = None"
| "first_fit (batch_size # rest) sz max_size =
     (if batch_size + sz \<le> max_size then Some 0
      else map_option Suc (first_fit rest sz max_size))"

text \<open>
  One round of the outer loop (lines 151 to 170) on the two parallel lists \<open>batches\<close>
  and \<open>batch_sizes\<close>. The index comes from enumerating \<open>batch_sizes\<close>, and the two
  lists always have the same length, so \<open>batches[i]\<close> is in range. The source's
  variable \<open>size\<close> is \<open>sz\<close> here, and its list \<open>files\<close> is \<open>file_list\<close>.
\<close>

fun place :: "nat \<Rightarrow> entry list list \<times> nat list \<Rightarrow> entry \<Rightarrow> entry list list \<times> nat list" where
  "place max_size (batches, batch_sizes) (name, sz) =
     (if sz > max_size then (batches @ [[(name, sz)]], batch_sizes @ [sz])
      else
        (case first_fit batch_sizes sz max_size of
           Some i \<Rightarrow> (batches[i := batches ! i @ [(name, sz)]],
                      batch_sizes[i := batch_sizes ! i + sz])
         | None \<Rightarrow> (batches @ [[(name, sz)]], batch_sizes @ [sz])))"

text \<open>Lines 146 to 170: sort, then place every entry in turn.\<close>

definition pack :: "nat \<Rightarrow> entry list \<Rightarrow> entry list list \<times> nat list" where
  "pack max_size file_list = foldl (place max_size) ([], []) (sort_desc file_list)"

section \<open>First-fit-decreasing in the words of the specification\<close>

text \<open>
  The specification's BinPacker, to compare \<open>pack\<close> with: a bin is the list of its
  members, its total size is the sum of their sizes; an entry larger than the capacity
  opens a bin of its own, any other goes into the first bin, in creation order, whose
  total plus the entry's size is within the capacity, and opens a new bin when none fits.
\<close>

definition total :: "entry list \<Rightarrow> nat" where
  "total b = sum_list (map snd b)"

fun spec_first_fit :: "nat \<Rightarrow> entry list list \<Rightarrow> entry \<Rightarrow> entry list list" where
  "spec_first_fit capacity [] e = [[e]]"
| "spec_first_fit capacity (b # bs) e =
     (if total b + snd e \<le> capacity then (b @ [e]) # bs
      else b # spec_first_fit capacity bs e)"

definition spec_insert :: "nat \<Rightarrow> entry list list \<Rightarrow> entry \<Rightarrow> entry list list" where
  "spec_insert capacity bins e =
     (if snd e > capacity then bins @ [[e]] else spec_first_fit capacity bins e)"

text \<open>
  The specification's order: the same entries, sizes descending, and entries of equal
  size in their original order.
\<close>

definition stable_desc_sort_of :: "entry list \<Rightarrow> entry list \<Rightarrow> bool" where
  "stable_desc_sort_of es xs =
     (mset xs = mset es \<and> sorted_wrt (\<lambda>a b. snd a \<ge> snd b) xs \<and>
      (\<forall>k. filter (\<lambda>e. snd e = k) xs = filter (\<lambda>e. snd e = k) es))"

text \<open>
  A bin as the specification wants it: not empty, and either within the capacity or
  made of a single entry that is larger than the capacity (an overflow bin).
\<close>

definition good_bin :: "nat \<Rightarrow> entry list \<Rightarrow> bool" where
  "good_bin cap b = (b \<noteq> [] \<and> (total b \<le> cap \<or> (\<exists>e. b = [e] \<and> cap < snd e)))"

section \<open>What a scan sees: the directory tree\<close>

text \<open>
  The directory tree as the scanning code reads it. A directory lists its entries in the
  order in which \<open>iterdir\<close> yields them, and may be unreadable (\<open>iterdir\<close> raises
  \<open>PermissionError\<close>). A symbolic link carries what it resolves to, if anything; the
  other kinds of entry (FIFOs, sockets, devices) are \<open>Special\<close>. Names are ASCII
  strings.
\<close>

datatype node =
    File bytes
  | Dir bool "(string \<times> node) list"
  | Symlink "node option"
  | Special

text \<open>
  \<open>Path.is_dir()\<close> and \<open>Path.is_file()\<close> follow symbolic links: they answer for
  what the path resolves to, and answer \<open>False\<close> for a link that resolves to nothing.
\<close>

fun follow :: "node \<Rightarrow> node option" where
  "follow (Symlink None) = None"
| "follow (Symlink (Some n)) = follow n"
| "follow (File b) = Some (File b)"
| "follow (Dir readable entries) = Some (Dir readable entries)"
| "follow Special = Some Special"

definition is_dir :: "node \<Rightarrow> bool" where
  "is_dir n = (case follow n of Some (Dir readable entries) \<Rightarrow> True | _ \<Rightarrow> False)"

definition is_file :: "node \<Rightarrow> bool" where
  "is_file n = (case follow n of Some (File b) \<Rightarrow> True | _ \<Rightarrow> False)"

text \<open>\<open>entry.stat().st_size\<close> of an entry for which \<open>is_file\<close> holds.\<close>

definition node_size :: "node \<Rightarrow> nat" where
  "node_size n = (case follow n of Some (File b) \<Rightarrow> length b | _ \<Rightarrow> 0)"

text \<open>
  \<open>get_all_files\<close> of \<open>consolidate_files.py\<close>, called on a path and the directory
  found there. An unreadable directory contributes nothing (the \<open>PermissionError\<close> is
  caught and reported); the function is only ever called on directories.
\<close>

fun get_all_files :: "path \<Rightarrow> node \<Rightarrow> path list" where
  "get_all_files directory (Dir readable entries) =
     (if readable then
        concat (map (\<lambda>(name, n).
            if is_dir n then get_all_files (directory @ [name]) n
            else if is_file n then [directory @ [name]]
            else []) entries)
      else [])"
| "get_all_files directory (Symlink (Some n)) = get_all_files directory n"
| "get_all_files directory (Symlink None) = []"
| "get_all_files directory (File b) = []"
| "get_all_files directory Special = []"

text \<open>
  The shallow scan of \<open>split_dir.py\<close> (lines 137 to 140) over the entries of the
  directory: names and sizes of the entries for which \<open>is_file\<close> holds.
\<close>

definition list_files :: "(string \<times> node) list \<Rightarrow> entry list" where
  "list_files entries =
     map (\<lambda>(name, n). (name, node_size n)) (filter (\<lambda>(name, n). is_file n) entries)"

text \<open>
  The entry that a relative path leads to from a node, through readable directories
  (links followed on the way, the last component not followed).
\<close>

fun has_entry :: "node \<Rightarrow> path \<Rightarrow> node \<Rightarrow> bool" where
  "has_entry n [] e = (e = n)"
| "has_entry n (c # cs) e =
     (case follow n of
        Some (Dir readable entries) \<Rightarrow>
          readable \<and> list_ex (\<lambda>(c', m). c' = c \<and> has_entry m cs e) entries
      | _ \<Rightarrow> False)"

section \<open>Decimal numerals and whitespace\<close>

text \<open>\<open>str(n)\<close> of a non-negative integer, and the value of a string of digits.\<close>

definition digit_char :: "nat \<Rightarrow> char" where
  "digit_char d = ''0123456789'' ! d"

definition is_digit :: "char \<Rightarrow> bool" where
  "is_digit c = (c \<in> set ''0123456789'')"

definition digit_val :: "char \<Rightarrow> nat" where
  "digit_val c = length (takeWhile (\<lambda>d. d \<noteq> c) ''0123456789'')"

fun str_nat :: "nat \<Rightarrow> string" where
  "str_nat n = (if n < 10 then [digit_char n] else str_nat (n div 10) @ [digit_char (n mod 10)])"

declare str_nat.simps [simp del]

definition digits_value :: "string \<Rightarrow> nat" where
  "digits_value s = foldl (\<lambda>a c. 10 * a + digit_val c) 0 s"

text \<open>
  The ASCII characters that \<open>str.strip()\<close>, \<open>int()\<close> and the pattern \<open>\s\<close> take
  for whitespace, and \<open>str.strip()\<close>.
\<close>

definition is_space :: "char \<Rightarrow> bool" where
  "is_space c = (c \<in> set [CHR 0x09, CHR 0x0A, CHR 0x0B, CHR 0x0C, CHR 0x0D,
                           CHR 0x1C, CHR 0x1D, CHR 0x1E, CHR 0x1F, CHR '' ''])"

definition strip :: "string \<Rightarrow> string" where
  "strip s = rev (dropWhile is_space (rev (dropWhile is_space s)))"

text \<open>
  \<open>int(s)\<close> for a string of decimal digits with whitespace around it; \<open>None\<close> stands
  for the \<open>ValueError\<close> (signs and underscores, which no name that reaches the call
  has, are not modelled).
\<close>

definition py_int :: "string \<Rightarrow> nat option" where
  "py_int s =
     (let body = strip s
      in if body \<noteq> [] \<and> list_all is_digit body then Some (digits_value body) else None)"

text \<open>\<open>str\<close> of a number is made of digits, and has the number as its value.\<close>

lemma digit_lt10: "d < 10 \<Longrightarrow> d = 0 \<or> d = 1 \<or> d = 2 \<or> d = 3 \<or> d = 4 \<or> d = 5 \<or> d = 6 \<or> d = 7 \<or> d = 8 \<or> d = (9::nat)"
  by arith

lemma digit_val_char: "d < 10 \<Longrightarrow> digit_val (digit_char d) = d"
  using digit_lt10 [of d] by (auto simp: digit_val_def digit_char_def)

lemma is_digit_char: "d < 10 \<Longrightarrow> is_digit (digit_char d)"
  using digit_lt10 [of d] by (auto simp: is_digit_def digit_char_def)

lemma digits_value_snoc: "digits_value (s @ [c]) = 10 * digits_value s + digit_val c"
  by (simp add: digits_value_def)

lemma digits_value_str_nat: "digits_value (str_nat n) = n"
proof (induction n rule: str_nat.induct)
  case (1 n)
  show ?case
  proof (cases "n < 10")
    case True
    then show ?thesis by (simp add: str_nat.simps [of n] digits_value_def digit_val_char)
  next
    case False
    with 1 have "digits_value (str_nat (n div 10)) = n div 10" by simp
    with False show ?thesis
      by (simp add: str_nat.simps [of n] digits_value_snoc digit_val_char)
  qed
qed

lemma str_nat_inj: "str_nat a = str_nat b \<Longrightarrow> a = b"
  by (metis digits_value_str_nat)

lemma str_nat_digits: "str_nat n \<noteq> [] \<and> list_all is_digit (str_nat n)"
proof (induction n rule: str_nat.induct)
  case (1 n)
  show ?case
  proof (cases "n < 10")
    case True
    then show ?thesis by (simp add: str_nat.simps [of n] is_digit_char)
  next
    case False
    with 1 have "list_all is_digit (str_nat (n div 10))" by simp
    with False show ?thesis
      by (simp add: str_nat.simps [of n] is_digit_char)
  qed
qed

section \<open>Numbering of the directories of \<open>split_dir.py\<close>\<close>

text \<open>
  \<open>re.compile(r"^\d+$").match(name)\<close>: one or more digits up to the end of the
  string, where \<open>$\<close> also matches just before a newline that ends the string.
\<close>

definition matches_digits :: "string \<Rightarrow> bool" where
  "matches_digits name =
     (let body = (if name \<noteq> [] \<and> last name = CHR 0x0A then butlast name else name)
      in body \<noteq> [] \<and> list_all is_digit body)"

text \<open>\<open>find_max_numbered_dir\<close>, on the entries that \<open>source_dir.iterdir()\<close> yields.\<close>

definition find_max_numbered_dir :: "(string \<times> node) list \<Rightarrow> nat" where
  "find_max_numbered_dir entries =
     foldl (\<lambda>max_num (name, n).
        if is_dir n \<and> matches_digits name then
          (case py_int name of Some num \<Rightarrow> max max_num num | None \<Rightarrow> max_num)
        else max_num) 0 entries"

text \<open>
  Lines 176 to 190 of \<open>split_dir.py\<close>: batch \<open>i\<close> goes to the directory named
  \<open>str(start_num + i + 1)\<close>; an operation is a source, a destination and the name of
  the directory.
\<close>

definition split_operations :: "path \<Rightarrow> nat \<Rightarrow> entry list list \<Rightarrow> (path \<times> path \<times> string) list" where
  "split_operations directory start_num batches =
     concat (map (\<lambda>(i, batch).
         map (\<lambda>(name, sz).
           (directory @ [name],
            directory @ [str_nat (start_num + i + 1), name],
            str_nat (start_num + i + 1))) batch)
       (enumerate 0 batches))"

section \<open>Name resolution of \<open>consolidate_files.py\<close>\<close>

text \<open>
  What a path, given by its parts below the root of the tree, resolves to (symbolic links
  followed, as \<open>stat\<close> does), and \<open>Path.exists()\<close> on the tree.
\<close>

fun lookup :: "node \<Rightarrow> path \<Rightarrow> node option" where
  "lookup n [] = follow n"
| "lookup n (c # cs) =
     (case follow n of
        Some (Dir readable entries) \<Rightarrow>
          (case map_of entries c of Some m \<Rightarrow> lookup m cs | None \<Rightarrow> None)
      | _ \<Rightarrow> None)"

definition tree_exists :: "node \<Rightarrow> path \<Rightarrow> bool" where
  "tree_exists root p = (lookup root p \<noteq> None)"

text \<open>\<open>str(path)\<close>: the parts joined by the separator.\<close>

fun str_path :: "path \<Rightarrow> string" where
  "str_path [] = ''.''"
| "str_path [c] = c"
| "str_path (c # d # cs) = c @ ''/'' @ str_path (d # cs)"

text \<open>
  \<open>Path(filename).suffix\<close> and \<open>Path(filename).stem\<close> of a single component: the
  name is cut at its last dot, unless that dot is its first or its last character.
\<close>

definition suffix_start :: "string \<Rightarrow> nat option" where
  "suffix_start name =
     (let after = takeWhile (\<lambda>c. c \<noteq> CHR ''.'') (rev name);
          i = length name - length after - 1
      in if CHR ''.'' \<in> set name \<and> 0 < i \<and> after \<noteq> [] then Some i else None)"

definition path_suffix :: "string \<Rightarrow> string" where
  "path_suffix name = (case suffix_start name of Some i \<Rightarrow> drop i name | None \<Rightarrow> [])"

definition path_stem :: "string \<Rightarrow> string" where
  "path_stem name = (case suffix_start name of Some i \<Rightarrow> take i name | None \<Rightarrow> name)"

text \<open>
  The condition of the loop of \<open>get_unique_name\<close>, and the candidate
  \<open>target_dir / f"{stem}_{counter}{suffix}"\<close> (the source's variable \<open>suffix\<close>
  is \<open>sfx\<close> here).
\<close>

definition taken :: "node \<Rightarrow> string fset \<Rightarrow> path \<Rightarrow> bool" where
  "taken root claimed_names candidate =
     (tree_exists root candidate \<or> str_path candidate |\<in>| claimed_names)"

definition numbered :: "path \<Rightarrow> string \<Rightarrow> string \<Rightarrow> nat \<Rightarrow> path" where
  "numbered target_dir stem sfx counter =
     target_dir @ [stem @ ''_'' @ str_nat counter @ sfx]"

lemma str_path_snoc: "str_path (d @ [x]) = (if d = [] then x else str_path d @ ''/'' @ x)"
  by (induction d rule: str_path.induct) simp_all

lemma str_path_numbered_inj:
  "str_path (numbered target_dir stem sfx j) = str_path (numbered target_dir stem sfx k)
     \<Longrightarrow> j = k"
  by (auto simp: numbered_def str_path_snoc dest: str_nat_inj split: if_splits)

lemma lookup_snoc:
  "lookup n (t @ [c]) \<noteq> None \<Longrightarrow>
     \<exists>readable entries. lookup n t = Some (Dir readable entries) \<and> c \<in> fst ` set entries"
proof (induction t arbitrary: n)
  case Nil
  then show ?case
    by (auto split: option.splits node.splits dest!: map_of_SomeD intro!: image_eqI [where x = "(c, _)"])
next
  case (Cons a t)
  then show ?case by (auto split: option.splits node.splits)
qed

lemma tree_exists_child:
  "tree_exists root (t @ [c]) \<Longrightarrow>
     \<exists>readable entries. lookup root t = Some (Dir readable entries) \<and> c \<in> fst ` set entries"
  unfolding tree_exists_def by (rule lookup_snoc)

lemma finite_children: "finite {c. tree_exists root (t @ [c])}"
proof (cases "\<exists>readable entries. lookup root t = Some (Dir readable entries)")
  case True
  then obtain readable entries where l: "lookup root t = Some (Dir readable entries)" by blast
  have "{c. tree_exists root (t @ [c])} \<subseteq> fst ` set entries"
    using tree_exists_child [of root t] l by auto
  then show ?thesis by (rule finite_subset) simp
next
  case False
  then have "{c. tree_exists root (t @ [c])} = {}"
    using tree_exists_child [of root t] by auto
  then show ?thesis by simp
qed

lemma finite_taken_numbered:
  "finite {k. taken root claimed_names (numbered target_dir stem sfx k)}"
proof -
  let ?f = "\<lambda>k. numbered target_dir stem sfx k"
  have inj1: "inj (\<lambda>k. str_path (?f k))"
    by (rule injI) (rule str_path_numbered_inj)
  have inj2: "inj (\<lambda>k. stem @ ''_'' @ str_nat k @ sfx)"
    by (rule injI) (auto dest: str_nat_inj)
  have a: "finite ((\<lambda>k. str_path (?f k)) -` fset claimed_names)"
    using inj1 by (intro finite_vimageI) simp_all
  have "finite ((\<lambda>k. stem @ ''_'' @ str_nat k @ sfx) -` {c. tree_exists root (target_dir @ [c])})"
    using inj2 by (intro finite_vimageI finite_children)
  then have b: "finite {k. tree_exists root (?f k)}"
    by (simp add: vimage_def numbered_def)
  have "{k. taken root claimed_names (?f k)}
          = {k. tree_exists root (?f k)} \<union> ((\<lambda>k. str_path (?f k)) -` fset claimed_names)"
    by (auto simp: taken_def)
  with a b show ?thesis by simp
qed

text \<open>
  The loop of \<open>get_unique_name\<close> (lines 82 to 84), from a candidate and a counter. It
  ends because only finitely many of the numbered candidates exist or are claimed.
\<close>

function unique_loop ::
  "node \<Rightarrow> string fset \<Rightarrow> path \<Rightarrow> string \<Rightarrow> string \<Rightarrow> path \<Rightarrow> nat \<Rightarrow> path" where
  "unique_loop root claimed_names target_dir stem sfx candidate counter =
     (if taken root claimed_names candidate
      then unique_loop root claimed_names target_dir stem sfx
             (numbered target_dir stem sfx counter) (counter + 1)
      else candidate)"
  by pat_completeness auto
termination
proof (relation "measure (\<lambda>(root, claimed_names, target_dir, stem, sfx, candidate, counter).
    card {k. counter \<le> k \<and> taken root claimed_names (numbered target_dir stem sfx k)}
    + (if taken root claimed_names candidate then 1 else 0))")
  show "wf (measure (\<lambda>(root, claimed_names, target_dir, stem, sfx, candidate, counter).
    card {k. counter \<le> k \<and> taken root claimed_names (numbered target_dir stem sfx k)}
    + (if taken root claimed_names candidate then 1 else 0)))"
    by simp
next
  fix root :: node and claimed_names :: "string fset" and target_dir :: path
    and stem sfx :: string and candidate :: path and counter :: nat
  assume t: "taken root claimed_names candidate"
  let ?A = "\<lambda>n. {k. n \<le> k \<and> taken root claimed_names (numbered target_dir stem sfx k)}"
  have fin: "finite (?A counter)"
    using finite_taken_numbered [of root claimed_names target_dir stem sfx] by simp
  have step: "card (?A (counter + 1))
      + (if taken root claimed_names (numbered target_dir stem sfx counter) then 1 else 0)
      = card (?A counter)"
  proof (cases "taken root claimed_names (numbered target_dir stem sfx counter)")
    case True
    then have "?A counter = insert counter (?A (counter + 1))" by (auto simp: le_Suc_eq)
    moreover have "counter \<notin> ?A (counter + 1)" by simp
    moreover have "finite (?A (counter + 1))" using fin by (rule rev_finite_subset) auto
    ultimately show ?thesis using True by simp
  next
    case False
    have "\<And>k. counter \<le> k \<Longrightarrow> taken root claimed_names (numbered target_dir stem sfx k)
            \<Longrightarrow> counter + 1 \<le> k"
    proof -
      fix k assume "counter \<le> k" "taken root claimed_names (numbered target_dir stem sfx k)"
      with False have "k \<noteq> counter" by auto
      with \<open>counter \<le> k\<close> show "counter + 1 \<le> k" by simp
    qed
    then have "?A counter = ?A (counter + 1)" by auto
    with False show ?thesis by simp
  qed
  show "((root, claimed_names, target_dir, stem, sfx,
          numbered target_dir stem sfx counter, counter + 1),
         (root, claimed_names, target_dir, stem, sfx, candidate, counter))
        \<in> measure (\<lambda>(root, claimed_names, target_dir, stem, sfx, candidate, counter).
    card {k. counter \<le> k \<and> taken root claimed_names (numbered target_dir stem sfx k)}
    + (if taken root claimed_names candidate then 1 else 0))"
    using step t by simp
qed

declare unique_loop.simps [simp del]

text \<open>
  \<open>get_unique_name\<close>: the path returned and the set \<open>claimed_names\<close> after the call.
\<close>

definition get_unique_name :: "node \<Rightarrow> string fset \<Rightarrow> path \<Rightarrow> string \<Rightarrow> path \<times> string fset" where
  "get_unique_name root claimed_names target_dir filename =
     (let candidate = unique_loop root claimed_names target_dir
                        (path_stem filename) (path_suffix filename) (target_dir @ [filename]) 1
      in (candidate, finsert (str_path candidate) claimed_names))"

section \<open>Planning of \<open>consolidate_files.py\<close>\<close>

text \<open>\<open>path.name\<close>: the last part (empty for the empty path).\<close>

definition path_name :: "path \<Rightarrow> string" where
  "path_name p = (if p = [] then [] else last p)"

text \<open>
  Lines 158 to 160 of \<open>main\<close>: when the target exists, the path of each of its
  entries is claimed. Listing a target that is not a directory, or not readable, raises
  an exception that nothing catches.
\<close>

definition seed_claimed :: "node \<Rightarrow> path \<Rightarrow> string fset \<Rightarrow> py_error + string fset" where
  "seed_claimed root target_dir claimed_names =
     (case lookup root target_dir of
        None \<Rightarrow> Inr claimed_names
      | Some (Dir readable entries) \<Rightarrow>
          if readable then
            Inr (foldl (\<lambda>claimed (name, n). finsert (str_path (target_dir @ [name])) claimed)
                   claimed_names entries)
          else Inl PermissionError
      | Some m \<Rightarrow> Inl NotADirectoryError)"

text \<open>
  An operation is a source, a destination and the flag \<open>was_renamed\<close>. Lines 175 to
  179: the destination of one file.
\<close>

type_synonym operation = "path \<times> path \<times> bool"

definition plan_file ::
  "node \<Rightarrow> path \<Rightarrow> string fset \<times> operation list \<Rightarrow> path \<Rightarrow> string fset \<times> operation list" where
  "plan_file root target_dir st filepath =
     (let simple_dest = target_dir @ [path_name filepath];
          (final_dest, claimed_names) =
             get_unique_name root (fst st) target_dir (path_name filepath);
          was_renamed = (final_dest \<noteq> simple_dest)
      in (claimed_names, snd st @ [(filepath, final_dest, was_renamed)]))"

text \<open>
  Lines 169 to 179: the sources in turn; one that does not exist is skipped, one that is
  not a directory makes \<open>iterdir\<close> raise \<open>NotADirectoryError\<close>.
\<close>

fun plan_sources ::
  "node \<Rightarrow> path \<Rightarrow> string fset \<times> operation list \<Rightarrow> path list
     \<Rightarrow> py_error + string fset \<times> operation list" where
  "plan_sources root target_dir st [] = Inr st"
| "plan_sources root target_dir st (source_dir # rest) =
     (case lookup root source_dir of
        None \<Rightarrow> plan_sources root target_dir st rest
      | Some (Dir readable entries) \<Rightarrow>
          plan_sources root target_dir
            (foldl (plan_file root target_dir) st
               (get_all_files source_dir (Dir readable entries))) rest
      | Some m \<Rightarrow> Inl NotADirectoryError)"

definition dests :: "operation list \<Rightarrow> path list" where
  "dests operations = map (\<lambda>(src, dest, renamed). dest) operations"

section \<open>Execution of the planned moves\<close>

text \<open>
  Why a loop over the operations stopped early: a move raised an exception, which the
  loop catches, reports and turns into \<open>typer.Exit(1)\<close>; or, in the split tool,
  \<open>mkdir\<close> raised one, which nothing catches.
\<close>

datatype stop = MoveFailed py_error | Crashed py_error

text \<open>
  \<open>dir_path.mkdir(parents=True, exist_ok=True)\<close>: an error when the path is a regular
  file (\<open>FileExistsError\<close>) or lies below one (\<open>NotADirectoryError\<close>); otherwise the
  path and its missing parents become directories.
\<close>

definition mkdir_p :: "fs \<Rightarrow> path \<Rightarrow> (py_error + unit) \<times> fs" where
  "mkdir_p s p =
     (if files s p \<noteq> None then (Inl FileExistsError, s)
      else if list_ex (\<lambda>q. files s q \<noteq> None) (butlast (tl (prefixes p)))
        then (Inl NotADirectoryError, s)
      else (Inr (), s\<lparr>dirs := dirs s \<union> set (tl (prefixes p))\<rparr>))"

text \<open>
  The loop of \<open>consolidate_files.py\<close> (lines 200 to 218), from a store and a count of
  completed moves: why it stopped (if it did), the store and the lines printed, and the
  count at the end. \<open>n_ops\<close> is \<open>len(operations)\<close>.
\<close>

fun run_moves ::
  "(bytes \<Rightarrow> string) \<Rightarrow> os_env \<Rightarrow> bool \<Rightarrow> nat \<Rightarrow> fs \<Rightarrow> nat \<Rightarrow> operation list
     \<Rightarrow> stop option \<times> fs \<times> event list \<times> nat" where
  "run_moves sha env verify n_ops s completed [] = (None, s, [], completed)"
| "run_moves sha env verify n_ops s completed ((src, dest, renamed) # rest) =
     (case move_file sha env s src dest verify of
        (Inl e, s', out) \<Rightarrow>
          (Some (MoveFailed e), s', out @ [Failed src dest e, Stopping completed n_ops], completed)
      | (Inr u, s', out) \<Rightarrow>
          (case run_moves sha env verify n_ops s' (completed + 1) rest of
             (r, s'', out', c) \<Rightarrow> (r, s'', out @ [Moved src dest] @ out', c)))"

text \<open>
  Lines 200 to 205 of \<open>split_dir.py\<close>: the directory of an operation is created
  unless it is among \<open>created_dirs\<close>. The result is the exception of \<open>mkdir\<close>
  with the store, or the store, \<open>created_dirs\<close> and the line printed.
\<close>

definition ensure_dir ::
  "fs \<Rightarrow> string fset \<Rightarrow> path \<Rightarrow> string \<Rightarrow> py_error \<times> fs + fs \<times> string fset \<times> event list" where
  "ensure_dir s created_dirs directory dir_name =
     (let dir_path = directory @ [dir_name] in
      if str_path dir_path |\<notin>| created_dirs then
        (case mkdir_p s dir_path of
           (Inl e, s0) \<Rightarrow> Inl (e, s0)
         | (Inr u, s0) \<Rightarrow>
             Inr (s0, finsert (str_path dir_path) created_dirs, [DirectoryHeader dir_name]))
      else Inr (s, created_dirs, []))"

text \<open>The loop of \<open>split_dir.py\<close> (lines 199 to 220).\<close>

fun run_split_moves ::
  "os_env \<Rightarrow> path \<Rightarrow> nat \<Rightarrow> fs \<Rightarrow> string fset \<Rightarrow> nat \<Rightarrow> (path \<times> path \<times> string) list
     \<Rightarrow> stop option \<times> fs \<times> event list \<times> nat" where
  "run_split_moves env directory n_ops s created_dirs completed [] = (None, s, [], completed)"
| "run_split_moves env directory n_ops s created_dirs completed ((src, dest, dir_name) # rest) =
     (case ensure_dir s created_dirs directory dir_name of
        Inl (e, s0) \<Rightarrow> (Some (Crashed e), s0, [], completed)
      | Inr (s0, created_dirs', hdr) \<Rightarrow>
          (case split_move_file env s0 src dest of
             (Inl e, s') \<Rightarrow>
               (Some (MoveFailed e), s', hdr @ [Failed src dest e, Stopping completed n_ops],
                completed)
           | (Inr u, s') \<Rightarrow>
               (case run_split_moves env directory n_ops s' created_dirs' (completed + 1) rest of
                  (r, s'', out', c) \<Rightarrow> (r, s'', hdr @ [Moved src dest] @ out', c))))"

text \<open>
  How a run of \<open>main\<close> ends: it returns, it raises \<open>typer.Exit(code)\<close>, it raises
  \<open>typer.BadParameter\<close>, or an exception escapes. The exit status of the process is
  then the framework's and the interpreter's doing: \<open>typer.Exit\<close> ends it with its
  code; \<open>BadParameter\<close> is a \<open>click.UsageError\<close>, reported with the usage text and
  that class's \<open>exit_code\<close>, which is 2; an escaped exception ends it with a traceback
  and status 1.
\<close>

datatype outcome = Returned | Exit nat | BadParameter | Uncaught py_error

fun exit_status :: "outcome \<Rightarrow> nat" where
  "exit_status Returned = 0"
| "exit_status (Exit code) = code"
| "exit_status BadParameter = 2"
| "exit_status (Uncaught e) = 1"

text \<open>The end of both \<open>main\<close>s: the loop, then the summary line or \<open>typer.Exit(1)\<close>.\<close>

definition finish :: "stop option \<times> fs \<times> event list \<times> nat \<Rightarrow> outcome \<times> fs \<times> event list" where
  "finish r =
     (case r of
        (None, s, out, completed) \<Rightarrow> (Returned, s, out @ [Summary completed])
      | (Some (MoveFailed e), s, out, completed) \<Rightarrow> (Exit 1, s, out)
      | (Some (Crashed e), s, out, completed) \<Rightarrow> (Uncaught e, s, out))"

text \<open>The source and destination pairs of the lines \<open>Moved\<close> in an output.\<close>

fun moved_pairs :: "event list \<Rightarrow> (path \<times> path) list" where
  "moved_pairs [] = []"
| "moved_pairs (Moved src dest # out) = (src, dest) # moved_pairs out"
| "moved_pairs (ev # out) = moved_pairs out"

section \<open>Validation of the arguments\<close>

text \<open>
  \<open>is_subpath\<close> and \<open>check_path_overlap\<close> of \<open>consolidate_files.py\<close>.
  \<open>child.relative_to(parent)\<close> succeeds exactly when the parts of \<open>parent\<close> begin
  the parts of \<open>child\<close>. \<open>Path.resolve\<close> is a parameter. The result \<open>Inl\<close> is the
  \<open>typer.BadParameter\<close> raised.
\<close>

definition is_subpath :: "path \<Rightarrow> path \<Rightarrow> bool" where
  "is_subpath child parent = prefix parent child"

datatype overlap = SameDirectory | TargetInsideSource | SourceInsideTarget

fun check_path_overlap :: "(path \<Rightarrow> path) \<Rightarrow> path \<Rightarrow> path list \<Rightarrow> overlap + unit" where
  "check_path_overlap resolve target_dir [] = Inr ()"
| "check_path_overlap resolve target_dir (src # rest) =
     (let abs_target = resolve target_dir; abs_src = resolve src in
      if abs_target = abs_src then Inl SameDirectory
      else if is_subpath abs_target abs_src then Inl TargetInsideSource
      else if is_subpath abs_src abs_target then Inl SourceInsideTarget
      else check_path_overlap resolve target_dir rest)"

text \<open>
  \<open>parse_size\<close> of \<open>split_dir.py\<close>. The pattern
  \<open>^(\d+(?:\.\d+)?)\s*(B|KB|MB|GB|TB)?$\<close>, case ignored, on the stripped string:
  digits, optionally a dot and digits, whitespace, optionally a unit, the end. The match
  gives the number as written and the unit in upper case (\<open>B\<close> when absent).
\<close>

definition upper_unit :: "string \<Rightarrow> string" where
  "upper_unit u =
     map (\<lambda>c. case map_of (zip ''bkmgt'' ''BKMGT'') c of Some C \<Rightarrow> C | None \<Rightarrow> c) u"

definition match_size :: "string \<Rightarrow> (string \<times> string) option" where
  "match_size s =
     (let whole = takeWhile is_digit s; r1 = dropWhile is_digit s;
          frac = (case r1 of c # r2 \<Rightarrow> if c = CHR ''.'' then takeWhile is_digit r2 else []
                  | [] \<Rightarrow> []);
          num = (if frac = [] then whole else whole @ ''.'' @ frac);
          r3 = (if frac = [] then r1 else dropWhile is_digit (tl r1));
          unit = upper_unit (dropWhile is_space r3)
      in if whole = [] then None
         else if unit = [] then Some (num, ''B'')
         else if unit \<in> set [''B'', ''KB'', ''MB'', ''GB'', ''TB''] then Some (num, unit)
         else None)"

definition SIZE_UNITS :: "string \<Rightarrow> nat" where
  "SIZE_UNITS unit =
     (if unit = ''KB'' then 1024 else if unit = ''MB'' then 1024 ^ 2
      else if unit = ''GB'' then 1024 ^ 3 else if unit = ''TB'' then 1024 ^ 4 else 1)"

text \<open>
  \<open>int(float(num) * SIZE_UNITS[unit])\<close> is floating-point arithmetic: the parameter
  \<open>to_int\<close> stands for it. It gives \<open>None\<close> where the product is infinite (a
  number of more than some three hundred digits), on which \<open>int\<close> raises
  \<open>OverflowError\<close>. The result \<open>Inl\<close> says how the exception raised ends the run:
  \<open>typer.BadParameter\<close> for a string that the pattern does not match, the escaped
  \<open>OverflowError\<close> otherwise.
\<close>

definition parse_size :: "(string \<Rightarrow> nat \<Rightarrow> int option) \<Rightarrow> string \<Rightarrow> outcome + int" where
  "parse_size to_int size_str =
     (case match_size (strip size_str) of
        None \<Rightarrow> Inl BadParameter
      | Some (num, unit) \<Rightarrow>
          (case to_int num (SIZE_UNITS unit) of
             None \<Rightarrow> Inl (Uncaught OverflowError)
           | Some bytes_val \<Rightarrow> Inr bytes_val))"

section \<open>The two \<open>main\<close>s\<close>

text \<open>
  \<open>main\<close> of \<open>consolidate_files.py\<close>. The tree is what the planning reads (an
  empty target directory created by the run adds no file to any scan); the store is what
  the run changes. Printed lines other than those of the loop are left out.
\<close>

definition consolidate_main ::
  "(bytes \<Rightarrow> string) \<Rightarrow> os_env \<Rightarrow> (path \<Rightarrow> path) \<Rightarrow> node \<Rightarrow> fs \<Rightarrow> path \<Rightarrow> path list
     \<Rightarrow> bool \<Rightarrow> bool \<Rightarrow> outcome \<times> fs \<times> event list" where
  "consolidate_main sha env resolve root s target_dir source_dirs dry_run verify =
     (if source_dirs = [] then (BadParameter, s, [])
      else
        (case check_path_overlap resolve target_dir source_dirs of
           Inl overlap \<Rightarrow> (BadParameter, s, [])
         | Inr ok \<Rightarrow>
             (case seed_claimed root target_dir {||} of
                Inl e \<Rightarrow> (Uncaught e, s, [])
              | Inr claimed_names \<Rightarrow>
                  (case (if dry_run then (Inr (), s) else mkdir_p s target_dir) of
                     (Inl e, s1) \<Rightarrow> (Uncaught e, s1, [])
                   | (Inr u, s1) \<Rightarrow>
                       (case plan_sources root target_dir (claimed_names, []) source_dirs of
                          Inl e \<Rightarrow> (Uncaught e, s1, [])
                        | Inr (claimed_names', operations) \<Rightarrow>
                            if operations = [] then (Exit 0, s1, [])
                            else if dry_run then (Exit 0, s1, [])
                            else finish (run_moves sha env verify (length operations)
                                           s1 0 operations))))))"

text \<open>
  \<open>main\<close> of \<open>split_dir.py\<close>. \<open>directory.iterdir()\<close> on an unreadable directory
  raises \<open>PermissionError\<close>, which nothing catches.
\<close>

definition split_main ::
  "os_env \<Rightarrow> (string \<Rightarrow> nat \<Rightarrow> int option) \<Rightarrow> node \<Rightarrow> fs \<Rightarrow> path \<Rightarrow> string \<Rightarrow> bool
     \<Rightarrow> outcome \<times> fs \<times> event list" where
  "split_main env to_int root s directory split_size dry_run =
     (case lookup root directory of
        None \<Rightarrow> (Exit 1, s, [])
      | Some (Dir readable entries) \<Rightarrow>
          (case parse_size to_int split_size of
             Inl raised \<Rightarrow> (raised, s, [])
           | Inr max_size \<Rightarrow>
               if max_size \<le> 0 then (Exit 1, s, [])
               else if \<not> readable then (Uncaught PermissionError, s, [])
               else
                 (let start_num = find_max_numbered_dir entries;
                      files = list_files entries
                  in if files = [] then (Exit 0, s, [])
                     else
                       (let batches = fst (pack (nat max_size) files);
                            operations = split_operations directory start_num batches
                        in if dry_run then (Exit 0, s, [])
                           else finish (run_split_moves env directory (length operations)
                                          s {||} 0 operations))))
      | Some m \<Rightarrow> (Exit 1, s, []))"

section \<open>Moves applied one after the other\<close>

text \<open>
  What it means that operations are applied in order: each step starts from the state
  that the step before has left, and the whole is \<open>None\<close> as soon as a step fails. A
  step of the consolidation tool is one call of \<open>move_file\<close> that returns; a step of
  the split tool is the creation of the directory, where due, and one call of its
  \<open>move_file\<close> that returns, the state being the store with \<open>created_dirs\<close>.
\<close>

fun apply_steps :: "('st \<Rightarrow> 'op \<Rightarrow> 'st option) \<Rightarrow> 'st \<Rightarrow> 'op list \<Rightarrow> 'st option" where
  "apply_steps step st [] = Some st"
| "apply_steps step st (op # ops) =
     (case step st op of None \<Rightarrow> None | Some st' \<Rightarrow> apply_steps step st' ops)"

definition op_src :: "path \<times> path \<times> 'a \<Rightarrow> path" where
  "op_src op = fst op"

definition op_dest :: "path \<times> path \<times> 'a \<Rightarrow> path" where
  "op_dest op = fst (snd op)"

definition move_step :: "(bytes \<Rightarrow> string) \<Rightarrow> os_env \<Rightarrow> bool \<Rightarrow> fs \<Rightarrow> operation \<Rightarrow> fs option" where
  "move_step sha env verify s op =
     (case move_file sha env s (op_src op) (op_dest op) verify of
        (Inr u, s', out) \<Rightarrow> Some s'
      | (Inl e, s', out) \<Rightarrow> None)"

definition split_step ::
  "os_env \<Rightarrow> path \<Rightarrow> fs \<times> string fset \<Rightarrow> path \<times> path \<times> string \<Rightarrow> (fs \<times> string fset) option" where
  "split_step env directory st op =
     (case ensure_dir (fst st) (snd st) directory (snd (snd op)) of
        Inl raised \<Rightarrow> None
      | Inr (s0, created_dirs, hdr) \<Rightarrow>
          (case split_move_file env s0 (op_src op) (op_dest op) of
             (Inr u, s') \<Rightarrow> Some (s', created_dirs)
           | (Inl e, s') \<Rightarrow> None))"

section \<open>Example stores and operating-system answers\<close>

text \<open>
  One regular file \<open>src/a.bin\<close> of three bytes, and two directories. The
  answers of the operating system: a rename within one filesystem; a rename across
  filesystems followed by a copy that loses the last byte; and one followed by a copy of
  the right length with changed bytes.
\<close>

definition ex_store :: fs where
  "ex_store = \<lparr>files = [[''src'', ''a.bin''] \<mapsto> [1, 2, 3]], dirs = {[''src''], [''dst'']}\<rparr>"

definition ex_sha :: "bytes \<Rightarrow> string" where
  "ex_sha b = (if b = [1, 2, 3] then ''good'' else ''other'')"

definition env_same_fs :: os_env where
  "env_same_fs = \<lparr>rename_outcome = (\<lambda>src dest. Renamed),
                   copy_outcome = (\<lambda>src dest b. Copied b)\<rparr>"


definition env_changed_copy :: os_env where
  "env_changed_copy = \<lparr>rename_outcome = (\<lambda>src dest. RenameError EXDEV),
                        copy_outcome = (\<lambda>src dest b. Copied (map (\<lambda>w. w + 1) b))\<rparr>"




lemmas move_defs = move_file_def split_move_file_def copy_fallback_def path_exists_def
  compute_sha256_def rename_def copy2_def st_size_def unlink_def

text \<open>
  A tree with a target directory \<open>t\<close> that already holds \<open>photo.jpg\<close>, and two
  source directories that each hold a \<open>photo.jpg\<close>.
\<close>

definition ex_tree :: node where
  "ex_tree = Dir True
     [(''t'', Dir True [(''photo.jpg'', File [9])]),
      (''s1'', Dir True [(''photo.jpg'', File [1])]),
      (''s2'', Dir True [(''photo.jpg'', File [2, 2]), (''notes'', File [])])]"

text \<open>
  Three files in a directory \<open>in\<close>, and an operating system that refuses to rename
  the second one (errno 13).
\<close>

definition ex_store3 :: fs where
  "ex_store3 = \<lparr>files = [[''in'', ''a''] \<mapsto> [1], [''in'', ''b''] \<mapsto> [2, 2],
                           [''in'', ''c''] \<mapsto> [3, 3, 3]],
                 dirs = {[''in''], [''out'']}\<rparr>"

definition env_b_denied :: os_env where
  "env_b_denied = \<lparr>rename_outcome = (\<lambda>src dest. if src = [''in'', ''b''] then RenameError 13
                                                  else Renamed),
                    copy_outcome = (\<lambda>src dest b. Copied b)\<rparr>"

text \<open>Three operations on these files, for the consolidation tool and for the split tool.\<close>

definition ex_moves :: "operation list" where
  "ex_moves = [([''in'', ''a''], [''out'', ''a''], False),
               ([''in'', ''b''], [''out'', ''b''], False),
               ([''in'', ''c''], [''out'', ''c''], False)]"

definition ex_split_moves :: "(path \<times> path \<times> string) list" where
  "ex_split_moves = [([''in'', ''a''], [''in'', ''1'', ''a''], ''1''),
                     ([''in'', ''b''], [''in'', ''1'', ''b''], ''1''),
                     ([''in'', ''c''], [''in'', ''2'', ''c''], ''2'')]"

text \<open>
  A stand-in for the floating-point conversion, for numbers without a fraction; for the
  sake of short examples it overflows beyond twenty digits.
\<close>

definition ex_to_int :: "string \<Rightarrow> nat \<Rightarrow> int option" where
  "ex_to_int num unit_size =
     (if length num > 20 then None else Some (int (digits_value num * unit_size)))"

section \<open>Properties of the safe move\<close>

lemma store_restore: "files s dest = None \<Longrightarrow> s\<lparr>files := (files s)(dest := None)\<rparr> = s"
  by (cases s) (simp add: fun_upd_idem)














text \<open>
  C2: a call whose destination already exists raises \<open>FileExistsError\<close>
  (DestinationExists) and leaves the whole store as it was, in both tools: the source
  keeps its size and content, the destination is not modified, nothing is overwritten.
\<close>

theorem C2_destination_exists_is_noop:
  assumes "path_exists s dest"
  shows "move_file sha env s src dest verify = (Inl FileExistsError, s, [])
       \<and> split_move_file env s src dest = (Inl FileExistsError, s)"
  using assms by (simp add: move_file_def split_move_file_def)

theorem C2_destination_exists_is_noop_witness:
  "path_exists ex_store [''src'', ''a.bin'']
   \<and> move_file ex_sha env_same_fs ex_store [''src'', ''a.bin''] [''src'', ''a.bin''] False
       = (Inl FileExistsError, ex_store, [])
   \<and> split_move_file env_same_fs ex_store [''src'', ''a.bin''] [''src'', ''a.bin'']
       = (Inl FileExistsError, ex_store)"
proof -
  have h: "path_exists ex_store [''src'', ''a.bin'']"
    by (simp add: path_exists_def ex_store_def)
  from C2_destination_exists_is_noop [OF h, of ex_sha env_same_fs "[''src'', ''a.bin'']" False] h
  show ?thesis by simp
qed

text \<open>
  C10: in the consolidation tool, a call with \<open>verify\<close> set whose rename succeeds
  returns at once: the result is the renamed store and no line is printed, whatever the
  hash function is, so no checksum has been compared. The source's checksum is compared
  with the destination's only after a rename that failed with \<open>EXDEV\<close> and a copy
  of the right size: there the call succeeds exactly when the two checksums agree.
\<close>

theorem C10_rename_skips_verification:
  assumes "\<not> path_exists s dest" and "files s src = Some b"
  shows "(rename_outcome env src dest = Renamed \<longrightarrow>
           move_file sha env s src dest True
             = (Inr (), s\<lparr>files := (files s)(src := None, dest \<mapsto> b)\<rparr>, [])
           \<and> move_file sha env s src dest True = move_file sha' env s src dest True)
       \<and> (rename_outcome env src dest = RenameError EXDEV \<and> src \<noteq> dest \<and>
           copy_outcome env src dest b = Copied w \<and> length w = length b \<longrightarrow>
           move_file sha env s src dest True
             = (if sha b = sha w
                then (Inr (), s\<lparr>files := (files s)(dest \<mapsto> w, src := None)\<rparr>, [Verified (sha w)])
                else (Inl RuntimeError_checksum_mismatch, s, [])))"
  using assms
  by (auto simp: move_defs store_restore)

theorem C10_rename_skips_verification_witness:
  "\<not> path_exists ex_store [''dst'', ''a.bin'']
   \<and> files ex_store [''src'', ''a.bin''] = Some [1, 2, 3]
   \<and> rename_outcome env_same_fs [''src'', ''a.bin''] [''dst'', ''a.bin''] = Renamed
   \<and> move_file ex_sha env_same_fs ex_store [''src'', ''a.bin''] [''dst'', ''a.bin''] True
       = (Inr (), ex_store\<lparr>files := (files ex_store)
            ([''src'', ''a.bin''] := None, [''dst'', ''a.bin''] \<mapsto> [1, 2, 3])\<rparr>, [])
   \<and> move_file ex_sha env_changed_copy ex_store [''src'', ''a.bin''] [''dst'', ''a.bin''] True
       = (Inl RuntimeError_checksum_mismatch, ex_store, [])"
proof -
  have h1: "\<not> path_exists ex_store [''dst'', ''a.bin'']"
    by (simp add: path_exists_def ex_store_def)
  have h2: "files ex_store [''src'', ''a.bin''] = Some [1, 2, 3]"
    by (simp add: ex_store_def)
  have h3: "rename_outcome env_same_fs [''src'', ''a.bin''] [''dst'', ''a.bin''] = Renamed"
    by (simp add: env_same_fs_def)
  have h4: "rename_outcome env_changed_copy [''src'', ''a.bin''] [''dst'', ''a.bin'']
              = RenameError EXDEV
            \<and> [''src'', ''a.bin''] \<noteq> [''dst'', ''a.bin'']
            \<and> copy_outcome env_changed_copy [''src'', ''a.bin''] [''dst'', ''a.bin''] [1, 2, 3]
              = Copied [2, 3, 4]
            \<and> length [2, 3, 4 :: 8 word] = length [1, 2, 3 :: 8 word]
            \<and> ex_sha [1, 2, 3] \<noteq> ex_sha [2, 3, 4]"
    by (simp add: env_changed_copy_def ex_sha_def)
  from C10_rename_skips_verification [OF h1 h2, of env_same_fs ex_sha ex_sha "[2, 3, 4]"] h3
  have a: "move_file ex_sha env_same_fs ex_store [''src'', ''a.bin''] [''dst'', ''a.bin''] True
       = (Inr (), ex_store\<lparr>files := (files ex_store)
            ([''src'', ''a.bin''] := None, [''dst'', ''a.bin''] \<mapsto> [1, 2, 3])\<rparr>, [])"
    by simp
  from C10_rename_skips_verification [OF h1 h2, of env_changed_copy ex_sha ex_sha "[2, 3, 4]"] h4
  have b: "move_file ex_sha env_changed_copy ex_store [''src'', ''a.bin''] [''dst'', ''a.bin''] True
       = (Inl RuntimeError_checksum_mismatch, ex_store, [])"
    by simp
  show ?thesis using h1 h2 h3 a b by simp
qed

section \<open>Properties of the bin packing\<close>

lemma sort_desc_stable: "stable_desc_sort_of es (sort_desc es)"
  unfolding stable_desc_sort_of_def sort_desc_def
proof (intro conjI allI)
  show "mset (rev (sort_key snd (rev es))) = mset es" by simp
  have "sorted (map snd (sort_key snd (rev es)))" by simp
  then have "sorted_wrt (\<lambda>a b. snd a \<le> snd b) (sort_key snd (rev es))"
    by (simp add: sorted_map)
  then show "sorted_wrt (\<lambda>a b. snd b \<le> snd a) (rev (sort_key snd (rev es)))"
    by (simp add: sorted_wrt_rev)
  fix k
  have "filter (\<lambda>e. snd e = k) (sort_key snd (rev es)) = filter (\<lambda>e. snd e = k) (rev es)"
    by (rule sort_key_stable)
  then show "filter (\<lambda>e. snd e = k) (rev (sort_key snd (rev es))) = filter (\<lambda>e. snd e = k) es"
    by (simp add: rev_filter [symmetric])
qed

lemma first_fit_spec:
  "batch_sizes = map total batches \<Longrightarrow>
   (case first_fit batch_sizes (snd e) cap of
      Some i \<Rightarrow> batches[i := batches ! i @ [e]]
    | None \<Rightarrow> batches @ [[e]]) = spec_first_fit cap batches e"
  by (induction batches arbitrary: batch_sizes) (auto split: option.splits)

lemma first_fit_sizes:
  "batch_sizes = map total batches \<Longrightarrow>
   (case first_fit batch_sizes (snd e) cap of
      Some i \<Rightarrow> batch_sizes[i := batch_sizes ! i + snd e]
    | None \<Rightarrow> batch_sizes @ [snd e]) = map total (spec_first_fit cap batches e)"
  by (induction batches arbitrary: batch_sizes) (auto simp: total_def split: option.splits)

lemma place_spec:
  assumes "batch_sizes = map total batches"
  shows "place cap (batches, batch_sizes) e
           = (spec_insert cap batches e, map total (spec_insert cap batches e))"
proof (cases e)
  case (Pair name sz)
  show ?thesis
  proof (cases "sz > cap")
    case True
    then show ?thesis using Pair assms by (simp add: spec_insert_def total_def)
  next
    case False
    from first_fit_spec [OF assms, of e cap] first_fit_sizes [OF assms, of e cap] False Pair
    show ?thesis by (auto simp: spec_insert_def split: option.splits)
  qed
qed

lemma foldl_place_spec:
  "batch_sizes = map total batches \<Longrightarrow>
   foldl (place cap) (batches, batch_sizes) es
     = (foldl (spec_insert cap) batches es, map total (foldl (spec_insert cap) batches es))"
  by (induction es arbitrary: batches batch_sizes) (simp_all add: place_spec)

lemma pack_spec:
  "pack cap es = (foldl (spec_insert cap) [] (sort_desc es),
                  map total (foldl (spec_insert cap) [] (sort_desc es)))"
  unfolding pack_def by (rule foldl_place_spec) simp

lemma spec_first_fit_mset:
  "mset (concat (spec_first_fit cap bins e)) = add_mset e (mset (concat bins))"
  by (induction bins) auto

lemma spec_insert_mset:
  "mset (concat (spec_insert cap bins e)) = add_mset e (mset (concat bins))"
  by (simp add: spec_insert_def spec_first_fit_mset)

lemma spec_first_fit_good:
  "snd e \<le> cap \<Longrightarrow> list_all (good_bin cap) bins \<Longrightarrow> list_all (good_bin cap) (spec_first_fit cap bins e)"
  by (induction bins) (auto simp: good_bin_def total_def)

lemma spec_insert_good:
  "list_all (good_bin cap) bins \<Longrightarrow> list_all (good_bin cap) (spec_insert cap bins e)"
  by (auto simp: spec_insert_def spec_first_fit_good good_bin_def)

lemma foldl_spec_insert_mset:
  "mset (concat (foldl (spec_insert cap) bins es)) = mset (concat bins) + mset es"
  by (induction es arbitrary: bins) (simp_all add: spec_insert_mset)

lemma foldl_spec_insert_good:
  "list_all (good_bin cap) bins \<Longrightarrow> list_all (good_bin cap) (foldl (spec_insert cap) bins es)"
  by (induction es arbitrary: bins) (simp_all add: spec_insert_good)

lemma member_le_total: "e \<in> set b \<Longrightarrow> snd e \<le> total b"
  unfolding total_def by (induction b) auto

lemma good_bin_oversized: "good_bin cap b \<Longrightarrow> e \<in> set b \<Longrightarrow> cap < snd e \<Longrightarrow> b = [e]"
  using member_le_total [of e b] by (auto simp: good_bin_def)

lemma pack_mset: "mset (concat (fst (pack cap es))) = mset es"
  by (simp add: pack_spec foldl_spec_insert_mset sort_desc_def)

lemma pack_good: "list_all (good_bin cap) (fst (pack cap es))"
  by (simp add: pack_spec foldl_spec_insert_good)

lemma first_fit_Some:
  "first_fit sizes sz cap = Some i \<Longrightarrow>
     i < length sizes \<and> sizes ! i + sz \<le> cap \<and> (\<forall>j<i. \<not> sizes ! j + sz \<le> cap)"
proof (induction sizes arbitrary: i)
  case Nil then show ?case by simp
next
  case (Cons a sizes)
  show ?case
  proof (cases "a + sz \<le> cap")
    case True with Cons.prems show ?thesis by simp
  next
    case False
    with Cons.prems obtain k where k: "first_fit sizes sz cap = Some k" "i = Suc k" by auto
    from Cons.IH [OF k(1)] False k(2) show ?thesis by (auto simp: less_Suc_eq_0_disj)
  qed
qed

lemma first_fit_None:
  "first_fit sizes sz cap = None \<Longrightarrow> \<forall>j<length sizes. \<not> sizes ! j + sz \<le> cap"
  by (induction sizes) (auto simp: less_Suc_eq_0_disj split: if_splits)

lemma place_keeps_overflow:
  assumes "length batches = length batch_sizes" "i < length batch_sizes" "cap < batch_sizes ! i"
  shows "fst (place cap (batches, batch_sizes) e) ! i = batches ! i
       \<and> snd (place cap (batches, batch_sizes) e) ! i = batch_sizes ! i"
proof (cases e)
  case (Pair name sz)
  show ?thesis
  proof (cases "first_fit batch_sizes sz cap")
    case None
    then show ?thesis using assms Pair by (simp add: nth_append)
  next
    case (Some k)
    from first_fit_Some [OF Some] assms have "k \<noteq> i" by auto
    then show ?thesis using assms Pair Some by (simp add: nth_append)
  qed
qed

lemma distinct_exactly_one:
  assumes "distinct (concat bins)" "e \<in> set (concat bins)"
  shows "\<exists>!i. i < length bins \<and> e \<in> set (bins ! i)"
  using assms
proof (induction bins)
  case Nil then show ?case by simp
next
  case (Cons b bins)
  show ?case
  proof (cases "e \<in> set b")
    case True
    with Cons.prems have "e \<notin> set (concat bins)" by auto
    then have no: "\<And>j. j < length bins \<Longrightarrow> e \<notin> set (bins ! j)" by auto
    show ?thesis
    proof (rule ex1I [of _ 0])
      show "0 < length (b # bins) \<and> e \<in> set ((b # bins) ! 0)" using True by simp
    next
      fix i assume a: "i < length (b # bins) \<and> e \<in> set ((b # bins) ! i)"
      show "i = 0"
      proof (cases i)
        case 0 then show ?thesis .
      next
        case (Suc j)
        with a have "j < length bins" "e \<in> set (bins ! j)" by simp_all
        with no show ?thesis by blast
      qed
    qed
  next
    case False
    with Cons.prems have ein: "e \<in> set (concat bins)" and d: "distinct (concat bins)" by auto
    have "\<exists>!i. i < length bins \<and> e \<in> set (bins ! i)" using Cons.IH [OF d ein] .
    then obtain k where
      k: "k < length bins \<and> e \<in> set (bins ! k)" and
      u: "\<And>j. j < length bins \<and> e \<in> set (bins ! j) \<Longrightarrow> j = k"
      by (rule ex1E) blast
    show ?thesis
    proof (rule ex1I [of _ "Suc k"])
      show "Suc k < length (b # bins) \<and> e \<in> set ((b # bins) ! Suc k)" using k by simp
    next
      fix i assume a: "i < length (b # bins) \<and> e \<in> set ((b # bins) ! i)"
      show "i = Suc k"
      proof (cases i)
        case 0 with a False show ?thesis by simp
      next
        case (Suc j)
        with a have "j < length bins \<and> e \<in> set (bins ! j)" by simp
        from u [OF this] Suc show ?thesis by simp
      qed
    qed
  qed
qed

lemma pack_exactly_one:
  assumes "distinct es" "e \<in> set es"
  shows "\<exists>!i. i < length (fst (pack cap es)) \<and> e \<in> set (fst (pack cap es) ! i)"
proof -
  have m: "mset (concat (fst (pack cap es))) = mset es" by (rule pack_mset)
  then have "distinct (concat (fst (pack cap es)))" using assms(1)
    using mset_eq_imp_distinct_iff [OF m] by simp
  moreover have "e \<in> set (concat (fst (pack cap es)))" using m assms(2)
    using mset_eq_setD [OF m] by simp
  ultimately show ?thesis by (rule distinct_exactly_one)
qed

text \<open>
  C4: for every list of entries and every capacity, the bins that \<open>pack\<close> returns
  hold exactly the entries of the input (as a multiset; when the entries are distinct,
  each lies in exactly one bin); every bin is within the capacity or is an overflow bin,
  made of one entry larger than the capacity; an entry larger than the capacity is alone
  in its bin; \<open>batch_sizes\<close> holds the bins' totals; and a round of the loop never
  touches a bin whose total exceeds the capacity.
\<close>

theorem C4_pack_partitions_within_capacity:
  "mset (concat (fst (pack cap es))) = mset es
   \<and> (\<forall>b \<in> set (fst (pack cap es)).
        b \<noteq> [] \<and> (total b \<le> cap \<or> (\<exists>e. b = [e] \<and> cap < snd e)))
   \<and> (\<forall>b \<in> set (fst (pack cap es)). \<forall>e \<in> set b. cap < snd e \<longrightarrow> b = [e])
   \<and> snd (pack cap es) = map total (fst (pack cap es))
   \<and> (distinct es \<longrightarrow>
        (\<forall>e \<in> set es. \<exists>!i. i < length (fst (pack cap es)) \<and> e \<in> set (fst (pack cap es) ! i)))
   \<and> (length batches = length batch_sizes \<and> i < length batch_sizes \<and> cap < batch_sizes ! i \<longrightarrow>
        fst (place cap (batches, batch_sizes) x) ! i = batches ! i
        \<and> snd (place cap (batches, batch_sizes) x) ! i = batch_sizes ! i)"
proof (intro conjI ballI impI)
  show "mset (concat (fst (pack cap es))) = mset es" by (rule pack_mset)
next
  fix b assume "b \<in> set (fst (pack cap es))"
  with pack_good [of cap es] have "good_bin cap b" by (simp add: list_all_iff)
  then show "b \<noteq> []" and "total b \<le> cap \<or> (\<exists>e. b = [e] \<and> cap < snd e)"
    by (simp_all add: good_bin_def)
next
  fix b e assume "b \<in> set (fst (pack cap es))" and e: "e \<in> set b" "cap < snd e"
  with pack_good [of cap es] have "good_bin cap b" by (simp add: list_all_iff)
  then show "b = [e]" using e by (rule good_bin_oversized)
next
  show "snd (pack cap es) = map total (fst (pack cap es))" by (simp add: pack_spec)
next
  fix e assume "distinct es" "e \<in> set es"
  then show "\<exists>!i. i < length (fst (pack cap es)) \<and> e \<in> set (fst (pack cap es) ! i)"
    by (rule pack_exactly_one)
next
  assume a: "length batches = length batch_sizes \<and> i < length batch_sizes \<and> cap < batch_sizes ! i"
  then show "fst (place cap (batches, batch_sizes) x) ! i = batches ! i"
    using place_keeps_overflow [of batches batch_sizes i cap x] by simp
  from a show "snd (place cap (batches, batch_sizes) x) ! i = batch_sizes ! i"
    using place_keeps_overflow [of batches batch_sizes i cap x] by simp
qed

text \<open>
  The theorem at work on five files and capacity 10, one of them of size 12: it gets the
  first bin, alone, and the other bins are within the capacity.
\<close>

theorem C4_pack_partitions_within_capacity_witness:
  "pack 10 [(''a'', 6), (''b'', 5), (''big'', 12), (''c'', 4), (''d'', 3)]
     = ([[(''big'', 12)], [(''a'', 6), (''c'', 4)], [(''b'', 5), (''d'', 3)]], [12, 10, 8])
   \<and> mset (concat [[(''big'', 12)], [(''a'', 6), (''c'', 4)], [(''b'', 5), (''d'', 3 :: nat)]])
     = mset [(''a'', 6), (''b'', 5), (''big'', 12), (''c'', 4), (''d'', 3)]
   \<and> [12, 10, 8] = map total [[(''big'', 12)], [(''a'', 6), (''c'', 4)], [(''b'', 5), (''d'', 3)]]"
proof -
  have run: "pack 10 [(''a'', 6), (''b'', 5), (''big'', 12), (''c'', 4), (''d'', 3)]
     = ([[(''big'', 12)], [(''a'', 6), (''c'', 4)], [(''b'', 5), (''d'', 3)]], [12, 10, 8])"
    by (simp add: pack_def sort_desc_def)
  from C4_pack_partitions_within_capacity
    [of 10 "[(''a'', 6), (''b'', 5), (''big'', 12), (''c'', 4), (''d'', 3)]" "[]" "[]" 0 "(''a'', 6)"]
  have "mset (concat (fst (pack 10 [(''a'', 6), (''b'', 5), (''big'', 12), (''c'', 4), (''d'', 3)])))
          = mset [(''a'', 6), (''b'', 5), (''big'', 12), (''c'', 4), (''d'', 3)]"
    and "snd (pack 10 [(''a'', 6), (''b'', 5), (''big'', 12), (''c'', 4), (''d'', 3)])
          = map total (fst (pack 10 [(''a'', 6), (''b'', 5), (''big'', 12), (''c'', 4), (''d'', 3)]))"
    by blast+
  with run show ?thesis by simp
qed

text \<open>
  C6: \<open>pack\<close> is first-fit-decreasing as the specification words it. The order in
  which the entries are placed is the stable descending sort of the input; the bins are
  those obtained by inserting the sorted entries one by one with the specification's
  rule, and \<open>batch_sizes\<close> their totals; the index that the inner loop finds is the
  least one whose size fits, and it finds none only when no size fits; and the
  specification's example comes out as two bins, \<open>a, c\<close> of total 10 and
  \<open>b, d\<close> of total 8.
\<close>

theorem C6_pack_is_first_fit_decreasing:
  "stable_desc_sort_of es (sort_desc es)
   \<and> pack cap es = (foldl (spec_insert cap) [] (sort_desc es),
                    map total (foldl (spec_insert cap) [] (sort_desc es)))
   \<and> (first_fit sizes sz cap = Some i \<longrightarrow>
        i < length sizes \<and> sizes ! i + sz \<le> cap \<and> (\<forall>j<i. \<not> sizes ! j + sz \<le> cap))
   \<and> (first_fit sizes sz cap = None \<longrightarrow> (\<forall>j<length sizes. \<not> sizes ! j + sz \<le> cap))
   \<and> pack 10 [(''a'', 6), (''b'', 5), (''c'', 4), (''d'', 3)]
       = ([[(''a'', 6), (''c'', 4)], [(''b'', 5), (''d'', 3)]], [10, 8])"
proof (intro conjI impI)
  show "stable_desc_sort_of es (sort_desc es)" by (rule sort_desc_stable)
  show "pack cap es = (foldl (spec_insert cap) [] (sort_desc es),
                    map total (foldl (spec_insert cap) [] (sort_desc es)))"
    by (rule pack_spec)
  show "pack 10 [(''a'', 6), (''b'', 5), (''c'', 4), (''d'', 3)]
       = ([[(''a'', 6), (''c'', 4)], [(''b'', 5), (''d'', 3)]], [10, 8])"
    by (simp add: pack_def sort_desc_def)
next
  assume "first_fit sizes sz cap = Some i"
  from first_fit_Some [OF this]
  show "i < length sizes" and "sizes ! i + sz \<le> cap" and "\<forall>j<i. \<not> sizes ! j + sz \<le> cap"
    by simp_all
next
  assume "first_fit sizes sz cap = None"
  then show "\<forall>j<length sizes. \<not> sizes ! j + sz \<le> cap" by (rule first_fit_None)
qed

text \<open>
  The theorem at work on files with equal sizes: \<open>b\<close> stays before \<open>d\<close> and
  \<open>a\<close> before \<open>c\<close>, and with capacity 8 the first bin that fits \<open>a\<close> is the
  first one.
\<close>

theorem C6_pack_is_first_fit_decreasing_witness:
  "sort_desc [(''a'', 3), (''b'', 5), (''c'', 3), (''d'', 5)]
     = [(''b'', 5), (''d'', 5), (''a'', 3), (''c'', 3)]
   \<and> stable_desc_sort_of [(''a'', 3), (''b'', 5), (''c'', 3), (''d'', 5)]
        [(''b'', 5), (''d'', 5), (''a'', 3), (''c'', 3)]
   \<and> first_fit [5, 5] 3 8 = Some 0
   \<and> pack 8 [(''a'', 3), (''b'', 5), (''c'', 3), (''d'', 5)]
     = ([[(''b'', 5), (''a'', 3)], [(''d'', 5), (''c'', 3)]], [8, 8])"
proof -
  have s: "sort_desc [(''a'', 3), (''b'', 5), (''c'', 3), (''d'', 5)]
     = [(''b'', 5), (''d'', 5), (''a'', 3), (''c'', 3)]"
    by (simp add: sort_desc_def)
  have f: "first_fit [5, 5] 3 8 = Some 0" by simp
  from C6_pack_is_first_fit_decreasing
    [of "[(''a'', 3), (''b'', 5), (''c'', 3), (''d'', 5)]" 8 "[5, 5]" 3 0]
  have "stable_desc_sort_of [(''a'', 3), (''b'', 5), (''c'', 3), (''d'', 5)]
          (sort_desc [(''a'', 3), (''b'', 5), (''c'', 3), (''d'', 5)])"
    and "pack 8 [(''a'', 3), (''b'', 5), (''c'', 3), (''d'', 5)]
          = (foldl (spec_insert 8) [] (sort_desc [(''a'', 3), (''b'', 5), (''c'', 3), (''d'', 5)]),
             map total (foldl (spec_insert 8) []
               (sort_desc [(''a'', 3), (''b'', 5), (''c'', 3), (''d'', 5)])))"
    by blast+
  with s f show ?thesis by (simp add: spec_insert_def total_def)
qed

section \<open>Properties of the scans\<close>


lemma has_entry_Dir:
  "(name, m) \<in> set entries \<Longrightarrow> has_entry m rel e \<Longrightarrow>
     has_entry (Dir True entries) (name # rel) e"
  by (auto simp: list_ex_iff)










section \<open>Properties of the numbering\<close>

text \<open>
  The number that an entry of the directory contributes to \<open>find_max_numbered_dir\<close>,
  if any.
\<close>

lemma find_max_foldl_ge:
  "m \<le> foldl (\<lambda>max_num (name, n).
        if is_dir n \<and> matches_digits name then
          (case py_int name of Some num \<Rightarrow> max max_num num | None \<Rightarrow> max_num)
        else max_num) m entries"
proof (induction entries arbitrary: m)
  case Nil
  show ?case by simp
next
  case (Cons x entries)
  obtain name n where x: "x = (name, n)" by (cases x)
  let ?m' = "if is_dir n \<and> matches_digits name then
          (case py_int name of Some num \<Rightarrow> max m num | None \<Rightarrow> m) else m"
  have "m \<le> ?m'" by (simp split: option.splits)
  also have "?m' \<le> foldl (\<lambda>max_num (name, n).
        if is_dir n \<and> matches_digits name then
          (case py_int name of Some num \<Rightarrow> max max_num num | None \<Rightarrow> max_num)
        else max_num) ?m' entries"
    by (rule Cons.IH)
  finally show ?case using x by simp
qed

lemma find_max_foldl_member:
  assumes "(name, n) \<in> set entries" "is_dir n" "matches_digits name" "py_int name = Some v"
  shows "v \<le> foldl (\<lambda>max_num (name, n).
        if is_dir n \<and> matches_digits name then
          (case py_int name of Some num \<Rightarrow> max max_num num | None \<Rightarrow> max_num)
        else max_num) m entries"
  using assms(1)
proof (induction entries arbitrary: m)
  case Nil
  then show ?case by simp
next
  case (Cons x entries)
  show ?case
  proof (cases "x = (name, n)")
    case True
    have "v \<le> max m v" by simp
    also have "max m v \<le> foldl (\<lambda>max_num (name, n).
        if is_dir n \<and> matches_digits name then
          (case py_int name of Some num \<Rightarrow> max max_num num | None \<Rightarrow> max_num)
        else max_num) (max m v) entries"
      by (rule find_max_foldl_ge)
    finally show ?thesis using True assms by simp
  next
    case False
    with Cons.prems have "(name, n) \<in> set entries" by simp
    from Cons.IH [OF this] show ?thesis by simp
  qed
qed

lemma find_max_numbered_dir_ge:
  assumes "(name, n) \<in> set entries" "is_dir n" "matches_digits name" "py_int name = Some v"
  shows "v \<le> find_max_numbered_dir entries"
  unfolding find_max_numbered_dir_def using assms by (rule find_max_foldl_member)

text \<open>A name made of digits only is matched, and counts with its decimal value.\<close>

lemma digit_not_space: "is_digit c \<Longrightarrow> \<not> is_space c"
  by (auto simp: is_digit_def is_space_def)

lemma strip_digits: "s \<noteq> [] \<Longrightarrow> list_all is_digit s \<Longrightarrow> strip s = s"
proof -
  assume s: "s \<noteq> []" "list_all is_digit s"
  then have "\<not> is_space (hd s)" "\<not> is_space (last s)"
    by (auto simp: list_all_iff digit_not_space)
  with s(1) have "dropWhile is_space s = s" "dropWhile is_space (rev s) = rev s"
    by (simp_all add: dropWhile_eq_self_iff hd_rev)
  then show ?thesis by (simp add: strip_def)
qed

lemma plain_digits_counted:
  assumes "s \<noteq> []" "list_all is_digit s"
  shows "matches_digits s \<and> py_int s = Some (digits_value s)"
proof -
  from assms have "is_digit (last s)" by (simp add: list_all_iff)
  then have "last s \<noteq> CHR 0x0A" by (auto simp: is_digit_def)
  with assms show ?thesis by (simp add: matches_digits_def py_int_def strip_digits)
qed

text \<open>
  No directory that exists beforehand has the name of a directory that the run assigns.
\<close>

lemma new_dir_name_is_fresh:
  assumes "(name, n) \<in> set entries" "is_dir n"
  shows "name \<noteq> str_nat (find_max_numbered_dir entries + i + 1)"
proof
  assume eq: "name = str_nat (find_max_numbered_dir entries + i + 1)"
  with str_nat_digits [of "find_max_numbered_dir entries + i + 1"]
  have "name \<noteq> []" "list_all is_digit name" by simp_all
  then have "matches_digits name" "py_int name = Some (digits_value name)"
    using plain_digits_counted by simp_all
  with assms have "digits_value name \<le> find_max_numbered_dir entries"
    using find_max_numbered_dir_ge by blast
  with eq show False by (simp add: digits_value_str_nat)
qed

text \<open>The directories of the batches are numbered consecutively from \<open>start_num + 1\<close>.\<close>

lemma split_operations_dir_names:
  "(src, dest, dir_name) \<in> set (split_operations directory start_num batches) \<Longrightarrow>
     \<exists>i name sz. i < length batches \<and> (name, sz) \<in> set (batches ! i) \<and>
       dir_name = str_nat (start_num + i + 1) \<and> src = directory @ [name] \<and>
       dest = directory @ [dir_name, name]"
  by (fastforce simp: split_operations_def in_set_enumerate_eq)

text \<open>
  C7 fails on the code: the pattern \<open>^\d+$\<close> also accepts a name of digits followed by
  a newline, and \<open>int\<close> ignores the newline. A directory whose name is \<open>5\<close> followed
  by a newline is not named by a plain decimal integer, yet it is counted as 5, so the
  first new directory is \<open>6\<close> and not \<open>1\<close>. A non-numeric name without the newline is
  ignored, as the claim says.
\<close>

theorem C7_newline_name_is_counted:
  "find_max_numbered_dir [(''5'' @ [CHR 0x0A], Dir True [])] = 5
   \<and> split_operations [''photos'']
        (find_max_numbered_dir [(''5'' @ [CHR 0x0A], Dir True [])]) [[(''a.jpg'', 3)]]
       = [([''photos'', ''a.jpg''], [''photos'', ''6'', ''a.jpg''], ''6'')]
   \<and> find_max_numbered_dir [(''5x'', Dir True [])] = 0
   \<and> find_max_numbered_dir [(''5'', Dir True [])] = 5"
  by (simp add: find_max_numbered_dir_def matches_digits_def py_int_def strip_def is_space_def
      is_digit_def is_dir_def digits_value_def digit_val_def split_operations_def
      str_nat.simps digit_char_def)

section \<open>Properties of the name resolution\<close>

lemma unique_loop_free:
  "\<not> taken root claimed_names
       (unique_loop root claimed_names target_dir stem sfx candidate counter)"
proof (induction root claimed_names target_dir stem sfx candidate counter
    rule: unique_loop.induct)
  case (1 root claimed_names target_dir stem sfx candidate counter)
  show ?case
  proof (cases "taken root claimed_names candidate")
    case True
    with 1 show ?thesis by (subst unique_loop.simps) simp
  next
    case False
    then show ?thesis by (subst unique_loop.simps) simp
  qed
qed

lemma get_unique_name_fresh:
  assumes "get_unique_name root claimed_names target_dir filename = (p, claimed')"
  shows "\<not> tree_exists root p \<and> str_path p |\<notin>| claimed_names
       \<and> claimed' = finsert (str_path p) claimed_names"
  using assms unique_loop_free [of root claimed_names target_dir
      "path_stem filename" "path_suffix filename" "target_dir @ [filename]" 1]
  by (auto simp: get_unique_name_def taken_def Let_def)

text \<open>
  What holds of the claim set and the operations planned so far, relative to the claim
  set \<open>c0\<close> at the start: the claim set has only grown, and the destinations are
  pairwise different as strings, claimed, not claimed at the start, and not on disk.
\<close>

definition plan_inv :: "node \<Rightarrow> string fset \<Rightarrow> string fset \<times> operation list \<Rightarrow> bool" where
  "plan_inv root c0 st =
     (c0 |\<subseteq>| fst st \<and> distinct (map str_path (dests (snd st))) \<and>
      list_all (\<lambda>d. str_path d |\<in>| fst st \<and> str_path d |\<notin>| c0 \<and> \<not> tree_exists root d)
        (dests (snd st)))"

lemma plan_file_inv:
  assumes "plan_inv root c0 st"
  shows "plan_inv root c0 (plan_file root target_dir st filepath)"
proof -
  obtain p c' where g: "get_unique_name root (fst st) target_dir (path_name filepath) = (p, c')"
    by (cases "get_unique_name root (fst st) target_dir (path_name filepath)")
  from get_unique_name_fresh [OF g] have
    f: "\<not> tree_exists root p" "str_path p |\<notin>| fst st" "c' = finsert (str_path p) (fst st)"
    by simp_all
  have pf: "plan_file root target_dir st filepath
      = (c', snd st @ [(filepath, p, p \<noteq> target_dir @ [path_name filepath])])"
    by (simp add: plan_file_def g Let_def)
  from assms f(2) have new: "str_path p \<notin> set (map str_path (dests (snd st)))"
    by (auto simp: plan_inv_def list_all_iff)
  from assms f(2) have "str_path p |\<notin>| c0" by (auto simp: plan_inv_def)
  with assms f new show ?thesis
    unfolding pf plan_inv_def by (auto simp: dests_def list_all_iff)
qed

lemma foldl_plan_file_inv:
  "plan_inv root c0 st \<Longrightarrow> plan_inv root c0 (foldl (plan_file root target_dir) st filepaths)"
  by (induction filepaths arbitrary: st) (simp_all add: plan_file_inv)

lemma plan_sources_inv:
  "plan_inv root c0 st \<Longrightarrow> plan_sources root target_dir st source_dirs = Inr st' \<Longrightarrow>
     plan_inv root c0 st'"
proof (induction source_dirs arbitrary: st)
  case Nil
  then show ?case by simp
next
  case (Cons source_dir rest)
  show ?case
  proof (cases "lookup root source_dir")
    case None
    with Cons show ?thesis by simp
  next
    case (Some m)
    show ?thesis
    proof (cases m)
      case (Dir readable entries)
      with Some Cons.prems have
        "plan_sources root target_dir
           (foldl (plan_file root target_dir) st
              (get_all_files source_dir (Dir readable entries))) rest = Inr st'"
        by simp
      moreover have "plan_inv root c0 (foldl (plan_file root target_dir) st
              (get_all_files source_dir (Dir readable entries)))"
        using Cons.prems(1) by (rule foldl_plan_file_inv)
      ultimately show ?thesis using Cons.IH by blast
    qed (use Some Cons.prems in simp_all)
  qed
qed

lemma foldl_finsert_mono:
  "c |\<subseteq>| foldl (\<lambda>claimed (name, n). finsert (f name) claimed) c entries"
proof (induction entries arbitrary: c)
  case Nil
  show ?case by simp
next
  case (Cons x entries)
  obtain name n where x: "x = (name, n)" by (cases x)
  have "c |\<subseteq>| finsert (f name) c" by auto
  also have "\<dots> |\<subseteq>| foldl (\<lambda>claimed (name, n). finsert (f name) claimed)
                        (finsert (f name) c) entries"
    by (rule Cons.IH)
  finally show ?case using x by simp
qed

lemma foldl_finsert_member:
  "(name, n) \<in> set entries \<Longrightarrow>
     f name |\<in>| foldl (\<lambda>claimed (name, n). finsert (f name) claimed) c entries"
proof (induction entries arbitrary: c)
  case Nil
  then show ?case by simp
next
  case (Cons x entries)
  show ?case
  proof (cases "x = (name, n)")
    case True
    have "f name |\<in>| finsert (f name) c" by simp
    with foldl_finsert_mono [of "finsert (f name) c" f entries] True show ?thesis
      by auto
  next
    case False
    with Cons.prems have "(name, n) \<in> set entries" by simp
    from Cons.IH [OF this] show ?thesis by (cases x) simp
  qed
qed

lemma seed_claimed_entries:
  assumes "seed_claimed root target_dir c = Inr c0"
    and "lookup root target_dir = Some (Dir readable entries)"
    and "(name, n) \<in> set entries"
  shows "str_path (target_dir @ [name]) |\<in>| c0"
  using assms foldl_finsert_member [of name n entries "\<lambda>name. str_path (target_dir @ [name])" c]
  by (auto simp: seed_claimed_def split: if_splits)

text \<open>
  C3: in a run of the consolidation tool (the claim set seeded from the target directory,
  then every file of every source given its destination), the destinations are pairwise
  different as strings; none is the path of an entry that the target directory had when
  the run began; none exists on disk; and each is in the claim set. A call of
  \<open>get_unique_name\<close> puts the path it returns into the claim set, where it was not
  before, so that a second call, even with the same directory and the same filename,
  returns another path.
\<close>

theorem C3_destinations_are_distinct:
  "(seed_claimed root target_dir c = Inr c0 \<and>
    plan_sources root target_dir (c0, []) source_dirs = Inr (claimed_names, operations) \<longrightarrow>
      distinct (map str_path (dests operations))
      \<and> (\<forall>d \<in> set (dests operations).
            \<not> tree_exists root d \<and> str_path d |\<in>| claimed_names \<and> str_path d |\<notin>| c0
            \<and> (\<forall>readable entries name n.
                  lookup root target_dir = Some (Dir readable entries) \<and> (name, n) \<in> set entries
                  \<longrightarrow> str_path d \<noteq> str_path (target_dir @ [name]) \<and> d \<noteq> target_dir @ [name])))
   \<and> (get_unique_name root c1 dir1 filename1 = (p1, c2) \<longrightarrow>
        str_path p1 |\<notin>| c1 \<and> c2 = finsert (str_path p1) c1 \<and> \<not> tree_exists root p1
        \<and> (get_unique_name root c2 dir2 filename2 = (p2, c3) \<longrightarrow>
             str_path p2 \<noteq> str_path p1 \<and> p2 \<noteq> p1))"
proof (intro conjI impI)
  assume a: "seed_claimed root target_dir c = Inr c0 \<and>
    plan_sources root target_dir (c0, []) source_dirs = Inr (claimed_names, operations)"
  have "plan_inv root c0 (c0, [])" by (simp add: plan_inv_def dests_def)
  with a have inv: "plan_inv root c0 (claimed_names, operations)"
    using plan_sources_inv by blast
  then show "distinct (map str_path (dests operations))" by (simp add: plan_inv_def)
  show "\<forall>d \<in> set (dests operations).
            \<not> tree_exists root d \<and> str_path d |\<in>| claimed_names \<and> str_path d |\<notin>| c0
            \<and> (\<forall>readable entries name n.
                  lookup root target_dir = Some (Dir readable entries) \<and> (name, n) \<in> set entries
                  \<longrightarrow> str_path d \<noteq> str_path (target_dir @ [name]) \<and> d \<noteq> target_dir @ [name])"
  proof (intro ballI conjI allI impI)
    fix d assume d: "d \<in> set (dests operations)"
    with inv show "\<not> tree_exists root d" "str_path d |\<in>| claimed_names" "str_path d |\<notin>| c0"
      by (auto simp: plan_inv_def list_all_iff)
    fix readable entries name n
    assume e: "lookup root target_dir = Some (Dir readable entries) \<and> (name, n) \<in> set entries"
    with a have "str_path (target_dir @ [name]) |\<in>| c0"
      using seed_claimed_entries by blast
    with \<open>str_path d |\<notin>| c0\<close> show "str_path d \<noteq> str_path (target_dir @ [name])"
      and "d \<noteq> target_dir @ [name]"
      by auto
  qed
next
  assume g: "get_unique_name root c1 dir1 filename1 = (p1, c2)"
  from get_unique_name_fresh [OF g]
  show "str_path p1 |\<notin>| c1" "c2 = finsert (str_path p1) c1" "\<not> tree_exists root p1"
    by simp_all
  assume h: "get_unique_name root c2 dir2 filename2 = (p2, c3)"
  from get_unique_name_fresh [OF h] \<open>c2 = finsert (str_path p1) c1\<close>
  show "str_path p2 \<noteq> str_path p1" "p2 \<noteq> p1" by auto
qed

lemma ex_seed: "seed_claimed ex_tree [''t''] {||} = Inr {|''t/photo.jpg''|}"
  by (simp add: seed_claimed_def ex_tree_def)

lemma ex_plan:
  "plan_sources ex_tree [''t''] ({|''t/photo.jpg''|}, []) [[''s1''], [''s2''], [''nowhere'']]
     = Inr ({|''t/notes'', ''t/photo_2.jpg'', ''t/photo_1.jpg'', ''t/photo.jpg''|},
        [([''s1'', ''photo.jpg''], [''t'', ''photo_1.jpg''], True),
         ([''s2'', ''photo.jpg''], [''t'', ''photo_2.jpg''], True),
         ([''s2'', ''notes''], [''t'', ''notes''], False)])"
  by (simp add: ex_tree_def is_dir_def is_file_def plan_file_def get_unique_name_def
      unique_loop.simps taken_def tree_exists_def numbered_def str_nat.simps digit_char_def
      path_name_def path_stem_def path_suffix_def suffix_start_def Let_def)

text \<open>
  The theorem at work: the two files named \<open>photo.jpg\<close> get \<open>photo_1.jpg\<close> and
  \<open>photo_2.jpg\<close>, as \<open>photo.jpg\<close> is in the target already.
\<close>

theorem C3_destinations_are_distinct_witness:
  "seed_claimed ex_tree [''t''] {||} = Inr {|''t/photo.jpg''|}
   \<and> plan_sources ex_tree [''t''] ({|''t/photo.jpg''|}, []) [[''s1''], [''s2''], [''nowhere'']]
     = Inr ({|''t/notes'', ''t/photo_2.jpg'', ''t/photo_1.jpg'', ''t/photo.jpg''|},
        [([''s1'', ''photo.jpg''], [''t'', ''photo_1.jpg''], True),
         ([''s2'', ''photo.jpg''], [''t'', ''photo_2.jpg''], True),
         ([''s2'', ''notes''], [''t'', ''notes''], False)])
   \<and> distinct [''t/photo_1.jpg'', ''t/photo_2.jpg'', ''t/notes'']
   \<and> \<not> tree_exists ex_tree [''t'', ''photo_1.jpg'']"
proof -
  from C3_destinations_are_distinct
    [of ex_tree "[''t'']" "{||}" "{|''t/photo.jpg''|}" "[[''s1''], [''s2''], [''nowhere'']]"
      "{|''t/notes'', ''t/photo_2.jpg'', ''t/photo_1.jpg'', ''t/photo.jpg''|}"
      "[([''s1'', ''photo.jpg''], [''t'', ''photo_1.jpg''], True),
        ([''s2'', ''photo.jpg''], [''t'', ''photo_2.jpg''], True),
        ([''s2'', ''notes''], [''t'', ''notes''], False)]"
      "{||}" "[]" "[]" "[]" "{||}" "[]" "[]" "[]" "{||}"]
    ex_seed ex_plan
  have "distinct (map str_path (dests
      [([''s1'', ''photo.jpg''], [''t'', ''photo_1.jpg''], True),
        ([''s2'', ''photo.jpg''], [''t'', ''photo_2.jpg''], True),
        ([''s2'', ''notes''], [''t'', ''notes''], False)]))"
    and "\<forall>d \<in> set (dests
      [([''s1'', ''photo.jpg''], [''t'', ''photo_1.jpg''], True),
        ([''s2'', ''photo.jpg''], [''t'', ''photo_2.jpg''], True),
        ([''s2'', ''notes''], [''t'', ''notes''], False)]). \<not> tree_exists ex_tree d"
    by blast+
  then show ?thesis using ex_seed ex_plan by (simp add: dests_def)
qed

section \<open>Properties of the execution\<close>

lemma moved_pairs_append: "moved_pairs (xs @ ys) = moved_pairs xs @ moved_pairs ys"
  by (induction xs rule: moved_pairs.induct) simp_all

lemma move_file_prints:
  "move_file sha env s src dest verify = (r, s', out) \<Longrightarrow> moved_pairs out = []"
  by (auto simp: move_defs
      split: if_splits sum.splits option.splits prod.splits rename_result.splits
        copy_result.splits)

text \<open>
  The loop of the consolidation tool, from any store and count. Either it went through
  all operations, or there is a first operation \<open>k\<close> whose move failed: the loop over
  the \<open>k\<close> operations before it alone runs to its end, the move of operation \<open>k\<close>
  in the store so reached raises the exception, and the result of the whole loop is the
  result of the loop over the first \<open>k + 1\<close> operations, whatever follows them.
\<close>

lemma run_moves_cases:
  assumes "run_moves sha env verify n_ops s c0 ops = (r, s', out, c)"
  shows "(r = None \<and> c = c0 + length ops
            \<and> moved_pairs out = map (\<lambda>(src, dest, renamed). (src, dest)) ops)
       \<or> (\<exists>k e s_k out_k out_e src dest renamed.
            k < length ops \<and> ops ! k = (src, dest, renamed)
            \<and> run_moves sha env verify n_ops s c0 (take k ops) = (None, s_k, out_k, c0 + k)
            \<and> move_file sha env s_k src dest verify = (Inl e, s', out_e)
            \<and> run_moves sha env verify n_ops s c0 (take (Suc k) ops) = (r, s', out, c)
            \<and> r = Some (MoveFailed e) \<and> c = c0 + k
            \<and> out = out_k @ out_e @ [Failed src dest e, Stopping (c0 + k) n_ops]
            \<and> moved_pairs out = map (\<lambda>(src, dest, renamed). (src, dest)) (take k ops))"
  using assms
proof (induction ops arbitrary: s c0 r s' out c)
  case Nil
  then show ?case by simp
next
  case (Cons op ops)
  obtain src dest renamed where op: "op = (src, dest, renamed)" by (cases op)
  obtain res s1 out1 where mv: "move_file sha env s src dest verify = (res, s1, out1)"
    by (cases "move_file sha env s src dest verify")
  have p1: "moved_pairs out1 = []" using mv by (rule move_file_prints)
  show ?case
  proof (cases res)
    case (Inl e)
    with Cons.prems op mv have
      r: "r = Some (MoveFailed e)" "s' = s1" "c = c0"
         "out = out1 @ [Failed src dest e, Stopping c0 n_ops]"
      by auto
    have "0 < length (op # ops)
        \<and> (op # ops) ! 0 = (src, dest, renamed)
        \<and> run_moves sha env verify n_ops s c0 (take 0 (op # ops)) = (None, s, [], c0 + 0)
        \<and> move_file sha env s src dest verify = (Inl e, s', out1)
        \<and> run_moves sha env verify n_ops s c0 (take (Suc 0) (op # ops)) = (r, s', out, c)
        \<and> r = Some (MoveFailed e) \<and> c = c0 + 0
        \<and> out = [] @ out1 @ [Failed src dest e, Stopping (c0 + 0) n_ops]
        \<and> moved_pairs out = map (\<lambda>(src, dest, renamed). (src, dest)) (take 0 (op # ops))"
      using r op mv Inl p1 by (simp add: moved_pairs_append)
    then show ?thesis by blast
  next
    case (Inr u)
    obtain r2 s2 out2 c2 where
      rest: "run_moves sha env verify n_ops s1 (c0 + 1) ops = (r2, s2, out2, c2)"
      by (cases "run_moves sha env verify n_ops s1 (c0 + 1) ops")
    with Cons.prems op mv Inr have
      r: "r = r2" "s' = s2" "c = c2" "out = out1 @ [Moved src dest] @ out2"
      by auto
    from Cons.IH [OF rest] show ?thesis
    proof
      assume a: "r2 = None \<and> c2 = c0 + 1 + length ops
            \<and> moved_pairs out2 = map (\<lambda>(src, dest, renamed). (src, dest)) ops"
      with r op p1 show ?thesis by (simp add: moved_pairs_append)
    next
      assume "\<exists>k e s_k out_k out_e src dest renamed.
            k < length ops \<and> ops ! k = (src, dest, renamed)
            \<and> run_moves sha env verify n_ops s1 (c0 + 1) (take k ops) = (None, s_k, out_k, c0 + 1 + k)
            \<and> move_file sha env s_k src dest verify = (Inl e, s2, out_e)
            \<and> run_moves sha env verify n_ops s1 (c0 + 1) (take (Suc k) ops) = (r2, s2, out2, c2)
            \<and> r2 = Some (MoveFailed e) \<and> c2 = c0 + 1 + k
            \<and> out2 = out_k @ out_e @ [Failed src dest e, Stopping (c0 + 1 + k) n_ops]
            \<and> moved_pairs out2 = map (\<lambda>(src, dest, renamed). (src, dest)) (take k ops)"
      then obtain k e s_k out_k out_e srck destk renamedk where
        k: "k < length ops" "ops ! k = (srck, destk, renamedk)"
           "run_moves sha env verify n_ops s1 (c0 + 1) (take k ops) = (None, s_k, out_k, c0 + 1 + k)"
           "move_file sha env s_k srck destk verify = (Inl e, s2, out_e)"
           "run_moves sha env verify n_ops s1 (c0 + 1) (take (Suc k) ops) = (r2, s2, out2, c2)"
           "r2 = Some (MoveFailed e)" "c2 = c0 + 1 + k"
           "out2 = out_k @ out_e @ [Failed srck destk e, Stopping (c0 + 1 + k) n_ops]"
           "moved_pairs out2 = map (\<lambda>(src, dest, renamed). (src, dest)) (take k ops)"
        by blast
      have "Suc k < length (op # ops)
        \<and> (op # ops) ! Suc k = (srck, destk, renamedk)
        \<and> run_moves sha env verify n_ops s c0 (take (Suc k) (op # ops))
            = (None, s_k, out1 @ [Moved src dest] @ out_k, c0 + Suc k)
        \<and> move_file sha env s_k srck destk verify = (Inl e, s', out_e)
        \<and> run_moves sha env verify n_ops s c0 (take (Suc (Suc k)) (op # ops)) = (r, s', out, c)
        \<and> r = Some (MoveFailed e) \<and> c = c0 + Suc k
        \<and> out = (out1 @ [Moved src dest] @ out_k) @ out_e
                 @ [Failed srck destk e, Stopping (c0 + Suc k) n_ops]
        \<and> moved_pairs out = map (\<lambda>(src, dest, renamed). (src, dest)) (take (Suc k) (op # ops))"
        using k r op mv Inr p1 by (simp add: moved_pairs_append)
      then show ?thesis by blast
    qed
  qed
qed

lemma ensure_dir_prints:
  "ensure_dir s created_dirs directory dir_name = Inr (s0, created_dirs', hdr) \<Longrightarrow>
     moved_pairs hdr = []"
  by (auto simp: ensure_dir_def Let_def split: if_splits prod.splits sum.splits)

text \<open>
  What a chain of steps leaves of the files, when a step that succeeds finds its
  destination absent, removes its source, puts a file at its destination and touches
  nothing else: files that are no source stay; paths that are neither source nor
  destination are as they were; and when no source is a destination, every destination
  holds a file at the end and every source is gone.
\<close>

lemma apply_steps_frame:
  fixes fl :: "'st \<Rightarrow> path \<rightharpoonup> bytes" and src dst :: "'op \<Rightarrow> path"
  assumes step: "\<And>st op st'. step st op = Some st' \<Longrightarrow>
      fl st (dst op) = None \<and> fl st' (src op) = None \<and> fl st' (dst op) \<noteq> None
      \<and> (\<forall>p. p \<noteq> src op \<and> p \<noteq> dst op \<longrightarrow> fl st' p = fl st p)"
    and run: "apply_steps step st ops = Some t"
  shows "(\<forall>p. p \<notin> src ` set ops \<longrightarrow> fl st p \<noteq> None \<longrightarrow> fl t p = fl st p)
       \<and> (\<forall>p. p \<notin> src ` set ops \<longrightarrow> p \<notin> dst ` set ops \<longrightarrow> fl t p = fl st p)
       \<and> (src ` set ops \<inter> dst ` set ops = {} \<longrightarrow>
            (\<forall>op \<in> set ops. fl t (dst op) \<noteq> None \<and> fl t (src op) = None))"
  using run
proof (induction ops arbitrary: st)
  case Nil
  then show ?case by simp
next
  case (Cons op ops)
  from Cons.prems obtain st1 where
    s1: "step st op = Some st1" and rest: "apply_steps step st1 ops = Some t"
    by (auto split: option.splits)
  from step [OF s1] have
    f: "fl st (dst op) = None" "fl st1 (src op) = None" "fl st1 (dst op) \<noteq> None"
       "\<And>p. p \<noteq> src op \<Longrightarrow> p \<noteq> dst op \<Longrightarrow> fl st1 p = fl st p"
    by auto
  from Cons.IH [OF rest] have
    A: "\<And>p. p \<notin> src ` set ops \<Longrightarrow> fl st1 p \<noteq> None \<Longrightarrow> fl t p = fl st1 p" and
    B: "\<And>p. p \<notin> src ` set ops \<Longrightarrow> p \<notin> dst ` set ops \<Longrightarrow> fl t p = fl st1 p" and
    C: "src ` set ops \<inter> dst ` set ops = {} \<Longrightarrow>
          (\<forall>op \<in> set ops. fl t (dst op) \<noteq> None \<and> fl t (src op) = None)"
    by auto
  have a: "\<forall>p. p \<notin> src ` set (op # ops) \<longrightarrow> fl st p \<noteq> None \<longrightarrow> fl t p = fl st p"
  proof (intro allI impI)
    fix p assume p: "p \<notin> src ` set (op # ops)" "fl st p \<noteq> None"
    then have "p \<noteq> src op" "p \<noteq> dst op" using f(1) by auto
    then have "fl st1 p = fl st p" by (rule f(4))
    with p A [of p] show "fl t p = fl st p" by auto
  qed
  have b: "\<forall>p. p \<notin> src ` set (op # ops) \<longrightarrow> p \<notin> dst ` set (op # ops) \<longrightarrow> fl t p = fl st p"
  proof (intro allI impI)
    fix p assume p: "p \<notin> src ` set (op # ops)" "p \<notin> dst ` set (op # ops)"
    then have "fl st1 p = fl st p" using f(4) [of p] by auto
    with p B [of p] show "fl t p = fl st p" by auto
  qed
  have c: "src ` set (op # ops) \<inter> dst ` set (op # ops) = {} \<longrightarrow>
            (\<forall>op' \<in> set (op # ops). fl t (dst op') \<noteq> None \<and> fl t (src op') = None)"
  proof (intro impI ballI)
    fix op' assume dis: "src ` set (op # ops) \<inter> dst ` set (op # ops) = {}"
      and mem: "op' \<in> set (op # ops)"
    from dis have dis': "src ` set ops \<inter> dst ` set ops = {}" by auto
    from dis have d1: "dst op \<notin> src ` set ops" and d2: "src op \<notin> dst ` set ops" by auto
    have here: "fl t (dst op) \<noteq> None \<and> fl t (src op) = None"
    proof
      from A [OF d1 f(3)] f(3) show "fl t (dst op) \<noteq> None" by simp
      show "fl t (src op) = None"
      proof (cases "src op \<in> src ` set ops")
        case True
        then obtain o2 where "o2 \<in> set ops" "src o2 = src op" by auto
        with C [OF dis'] show ?thesis by metis
      next
        case False
        from B [OF False d2] f(2) show ?thesis by simp
      qed
    qed
    from mem have "op' = op \<or> op' \<in> set ops" by simp
    then show "fl t (dst op') \<noteq> None \<and> fl t (src op') = None"
    proof
      assume "op' = op" with here show ?thesis by simp
    next
      assume "op' \<in> set ops" with C [OF dis'] show ?thesis by blast
    qed
  qed
  from a b c show ?case by blast
qed

text \<open>What one move does to the files, when it returns and when it raises.\<close>

lemma move_file_success_frame:
  assumes "move_file sha env s src dest verify = (Inr u, s', out)"
  shows "files s dest = None \<and> files s' src = None \<and> files s' dest \<noteq> None
       \<and> (\<forall>p. p \<noteq> src \<and> p \<noteq> dest \<longrightarrow> files s' p = files s p)"
  using assms
  by (auto simp: move_defs
      split: if_splits sum.splits option.splits prod.splits rename_result.splits
        copy_result.splits)

lemma move_file_failure_frame:
  assumes "move_file sha env s src dest verify = (Inl e, s', out)"
  shows "(\<forall>p. p \<noteq> dest \<longrightarrow> files s' p = files s p)
       \<and> (files s dest \<noteq> None \<longrightarrow> files s' dest = files s dest)"
  using assms
  by (auto simp: move_defs
      split: if_splits sum.splits option.splits prod.splits rename_result.splits
        copy_result.splits)

lemma split_move_file_success_frame:
  assumes "split_move_file env s src dest = (Inr u, s')"
  shows "files s dest = None \<and> files s' src = None \<and> files s' dest \<noteq> None
       \<and> (\<forall>p. p \<noteq> src \<and> p \<noteq> dest \<longrightarrow> files s' p = files s p)"
  using assms
  by (auto simp: move_defs
      split: if_splits sum.splits option.splits prod.splits rename_result.splits
        copy_result.splits)

lemma split_move_file_failure_frame:
  assumes "split_move_file env s src dest = (Inl e, s')"
  shows "(\<forall>p. p \<noteq> dest \<longrightarrow> files s' p = files s p)
       \<and> (files s dest \<noteq> None \<longrightarrow> files s' dest = files s dest)"
  using assms
  by (auto simp: move_defs
      split: if_splits sum.splits option.splits prod.splits rename_result.splits
        copy_result.splits)

lemma ensure_dir_files:
  "ensure_dir s created_dirs directory dir_name = Inr (s0, created_dirs', hdr) \<Longrightarrow>
     files s0 = files s"
  "ensure_dir s created_dirs directory dir_name = Inl (e, s0) \<Longrightarrow> s0 = s"
  by (auto simp: ensure_dir_def mkdir_p_def Let_def split: if_splits prod.splits sum.splits)

lemma move_step_frame:
  assumes "move_step sha env verify s op = Some s'"
  shows "files s (op_dest op) = None \<and> files s' (op_src op) = None
       \<and> files s' (op_dest op) \<noteq> None
       \<and> (\<forall>p. p \<noteq> op_src op \<and> p \<noteq> op_dest op \<longrightarrow> files s' p = files s p)"
proof -
  from assms obtain u out where
    "move_file sha env s (op_src op) (op_dest op) verify = (Inr u, s', out)"
    by (auto simp: move_step_def split: prod.splits sum.splits)
  then show ?thesis by (rule move_file_success_frame)
qed

lemma split_step_frame:
  assumes "split_step env directory st op = Some st'"
  shows "files (fst st) (op_dest op) = None \<and> files (fst st') (op_src op) = None
       \<and> files (fst st') (op_dest op) \<noteq> None
       \<and> (\<forall>p. p \<noteq> op_src op \<and> p \<noteq> op_dest op \<longrightarrow> files (fst st') p = files (fst st) p)"
proof -
  from assms obtain s0 created' hdr u where
    e: "ensure_dir (fst st) (snd st) directory (snd (snd op)) = Inr (s0, created', hdr)" and
    m: "split_move_file env s0 (op_src op) (op_dest op) = (Inr u, fst st')"
    by (auto simp: split_step_def split: prod.splits sum.splits)
  from ensure_dir_files(1) [OF e] split_move_file_success_frame [OF m]
  show ?thesis by simp
qed

lemma distinct_map_later:
  assumes "distinct (map f xs)" "k \<le> i" "i < length xs"
  shows "f (xs ! i) \<notin> f ` set (take k xs)"
proof
  assume "f (xs ! i) \<in> f ` set (take k xs)"
  then obtain x where x: "x \<in> set (take k xs)" "f x = f (xs ! i)" by auto
  then obtain j where j: "j < length (take k xs)" "take k xs ! j = x"
    by (auto simp: in_set_conv_nth)
  then have jk: "j < k" "j < length xs" "xs ! j = x" by auto
  have "j = i"
    using nth_eq_iff_index_eq [OF assms(1), of j i] jk x(2) assms(3) by simp
  with jk(1) assms(2) show False by simp
qed

text \<open>
  The files after a run that carried out the first \<open>k\<close> operations and then, if
  \<open>k\<close> is not all of them, made a failed attempt at operation \<open>k\<close>, an attempt
  that changes no path but its destination, and not even that if a file was there.
  When no source is a destination, the destinations of the first \<open>k\<close> operations hold
  files and their sources are gone; when moreover the sources are pairwise different, the
  sources of all other operations are as they were at the start.
\<close>

lemma first_failure_frame:
  fixes fl :: "'st \<Rightarrow> path \<rightharpoonup> bytes" and src dst :: "'op \<Rightarrow> path" and f' :: "path \<rightharpoonup> bytes"
  assumes step: "\<And>st op st'. step st op = Some st' \<Longrightarrow>
      fl st (dst op) = None \<and> fl st' (src op) = None \<and> fl st' (dst op) \<noteq> None
      \<and> (\<forall>p. p \<noteq> src op \<and> p \<noteq> dst op \<longrightarrow> fl st' p = fl st p)"
    and run: "apply_steps step st (take k ops) = Some t"
    and k: "k \<le> length ops"
    and all_done: "k = length ops \<Longrightarrow> f' = fl t"
    and failed: "k < length ops \<Longrightarrow>
      (\<forall>p. p \<noteq> dst (ops ! k) \<longrightarrow> f' p = fl t p)
      \<and> (fl t (dst (ops ! k)) \<noteq> None \<longrightarrow> f' (dst (ops ! k)) = fl t (dst (ops ! k)))"
  shows "(src ` set ops \<inter> dst ` set ops = {} \<longrightarrow>
          (\<forall>j<k. f' (dst (ops ! j)) \<noteq> None \<and> f' (src (ops ! j)) = None))
       \<and> (distinct (map src ops) \<and> src ` set ops \<inter> dst ` set ops = {} \<longrightarrow>
          (\<forall>i. k \<le> i \<and> i < length ops \<longrightarrow> f' (src (ops ! i)) = fl st (src (ops ! i))))"
proof -
  have both: "(\<forall>j<k. f' (dst (ops ! j)) \<noteq> None \<and> f' (src (ops ! j)) = None)
       \<and> (distinct (map src ops) \<longrightarrow>
          (\<forall>i. k \<le> i \<and> i < length ops \<longrightarrow> f' (src (ops ! i)) = fl st (src (ops ! i))))"
    if disj: "src ` set ops \<inter> dst ` set ops = {}"
  proof -
    have sub: "set (take k ops) \<subseteq> set ops" by (rule set_take_subset)
    with disj have disj': "src ` set (take k ops) \<inter> dst ` set (take k ops) = {}" by blast
    from apply_steps_frame [where fl = fl and src = src and dst = dst, OF step run] disj' have
      B: "\<And>p. p \<notin> src ` set (take k ops) \<Longrightarrow> p \<notin> dst ` set (take k ops) \<Longrightarrow> fl t p = fl st p"
      and
      C: "\<And>op. op \<in> set (take k ops) \<Longrightarrow> fl t (dst op) \<noteq> None \<and> fl t (src op) = None"
      by blast+
    have keep: "\<And>p. fl t p \<noteq> None \<Longrightarrow> f' p = fl t p"
    proof -
      fix p assume p: "fl t p \<noteq> None"
      show "f' p = fl t p"
      proof (cases "k = length ops")
        case True
        with all_done show ?thesis by simp
      next
        case False
        with k have "k < length ops" by simp
        from failed [OF this] p show ?thesis by (cases "p = dst (ops ! k)") auto
      qed
    qed
    have nodst: "\<And>p. p \<notin> dst ` set ops \<Longrightarrow> f' p = fl t p"
    proof -
      fix p assume p: "p \<notin> dst ` set ops"
      show "f' p = fl t p"
      proof (cases "k = length ops")
        case True
        with all_done show ?thesis by simp
      next
        case False
        with k have kl: "k < length ops" by simp
        then have "dst (ops ! k) \<in> dst ` set ops" by simp
        with p have "p \<noteq> dst (ops ! k)" by blast
        with failed [OF kl] show ?thesis by simp
      qed
    qed
    have srcs: "\<And>i. i < length ops \<Longrightarrow> src (ops ! i) \<notin> dst ` set ops"
      using disj by (metis disjoint_iff imageI nth_mem)
    show ?thesis
    proof (intro conjI allI impI)
      fix j assume j: "j < k"
      with k have mem: "ops ! j \<in> set (take k ops)"
        by (metis in_set_conv_nth length_take min.absorb2 nth_take)
      from C [OF mem] keep show "f' (dst (ops ! j)) \<noteq> None" by metis
      from j k have "j < length ops" by simp
      from nodst [OF srcs [OF this]] C [OF mem] show "f' (src (ops ! j)) = None" by simp
    next
      fix i assume dist: "distinct (map src ops)" and i: "k \<le> i \<and> i < length ops"
      then have a: "src (ops ! i) \<notin> src ` set (take k ops)"
        using distinct_map_later [OF dist, of k i] by simp
      have b: "src (ops ! i) \<notin> dst ` set (take k ops)"
        using srcs [of i] i sub by blast
      from nodst [OF srcs [of i]] i B [OF a b]
      show "f' (src (ops ! i)) = fl st (src (ops ! i))" by simp
    qed
  qed
  then show ?thesis by blast
qed

text \<open>
  The stores of the consolidation loop: the first \<open>k\<close> operations have been applied
  one after the other, and either they are all, or the move of operation \<open>k\<close>, in the
  store they left, raised the exception and left the store of the result.
\<close>

lemma run_moves_stores:
  assumes "run_moves sha env verify n_ops s c0 ops = (r, s', out, c)"
  shows "\<exists>k s_k. k \<le> length ops \<and> c = c0 + k
       \<and> apply_steps (move_step sha env verify) s (take k ops) = Some s_k
       \<and> (if k = length ops then r = None \<and> s' = s_k
          else \<exists>e out_e. r = Some (MoveFailed e)
             \<and> move_file sha env s_k (op_src (ops ! k)) (op_dest (ops ! k)) verify
                 = (Inl e, s', out_e))"
  using assms
proof (induction ops arbitrary: s c0 r s' out c)
  case Nil
  then show ?case by (intro exI [of _ 0] exI [of _ s]) simp
next
  case (Cons op ops)
  obtain src dest renamed where op: "op = (src, dest, renamed)" by (cases op)
  obtain res s1 out1 where mv: "move_file sha env s src dest verify = (res, s1, out1)"
    by (cases "move_file sha env s src dest verify")
  show ?case
  proof (cases res)
    case (Inl e)
    with Cons.prems op mv have "r = Some (MoveFailed e)" "s' = s1" "c = c0" by auto
    with mv Inl op show ?thesis
      by (intro exI [of _ 0] exI [of _ s]) (auto simp: op_src_def op_dest_def)
  next
    case (Inr u)
    obtain r2 s2 out2 c2 where
      rest: "run_moves sha env verify n_ops s1 (c0 + 1) ops = (r2, s2, out2, c2)"
      by (cases "run_moves sha env verify n_ops s1 (c0 + 1) ops")
    with Cons.prems op mv Inr have r: "r = r2" "s' = s2" "c = c2" by auto
    from Cons.IH [OF rest] obtain k s_k where
      k: "k \<le> length ops" "c2 = c0 + 1 + k"
         "apply_steps (move_step sha env verify) s1 (take k ops) = Some s_k"
         "if k = length ops then r2 = None \<and> s2 = s_k
          else \<exists>e out_e. r2 = Some (MoveFailed e)
             \<and> move_file sha env s_k (op_src (ops ! k)) (op_dest (ops ! k)) verify
                 = (Inl e, s2, out_e)"
      by blast
    have st: "move_step sha env verify s op = Some s1"
      using mv Inr op by (simp add: move_step_def op_src_def op_dest_def)
    have "Suc k \<le> length (op # ops) \<and> c = c0 + Suc k
       \<and> apply_steps (move_step sha env verify) s (take (Suc k) (op # ops)) = Some s_k
       \<and> (if Suc k = length (op # ops) then r = None \<and> s' = s_k
          else \<exists>e out_e. r = Some (MoveFailed e)
             \<and> move_file sha env s_k (op_src ((op # ops) ! Suc k)) (op_dest ((op # ops) ! Suc k))
                 verify = (Inl e, s', out_e))"
      using k r st by (cases "k = length ops") simp_all
    then show ?thesis by blast
  qed
qed

lemma run_split_moves_stores:
  assumes "run_split_moves env directory n_ops s created c0 ops = (r, s', out, c)"
  shows "\<exists>k s_k created_k. k \<le> length ops \<and> c = c0 + k
       \<and> apply_steps (split_step env directory) (s, created) (take k ops) = Some (s_k, created_k)
       \<and> (if k = length ops then r = None \<and> s' = s_k
          else (\<exists>e. r = Some (Crashed e)
                 \<and> ensure_dir s_k created_k directory (snd (snd (ops ! k))) = Inl (e, s'))
             \<or> (\<exists>e s0 created0 hdr. r = Some (MoveFailed e)
                 \<and> ensure_dir s_k created_k directory (snd (snd (ops ! k)))
                     = Inr (s0, created0, hdr)
                 \<and> split_move_file env s0 (op_src (ops ! k)) (op_dest (ops ! k)) = (Inl e, s')))"
  using assms
proof (induction ops arbitrary: s created c0 r s' out c)
  case Nil
  then show ?case by (intro exI [of _ 0] exI [of _ s] exI [of _ created]) simp
next
  case (Cons op ops)
  obtain src dest dir_name where op: "op = (src, dest, dir_name)" by (cases op)
  show ?case
  proof (cases "ensure_dir s created directory dir_name")
    case (Inl a)
    obtain e s0 where a: "a = (e, s0)" by (cases a)
    with Cons.prems op Inl have "r = Some (Crashed e)" "s' = s0" "c = c0" by auto
    with Inl a op show ?thesis
      by (intro exI [of _ 0] exI [of _ s] exI [of _ created]) simp
  next
    case (Inr b)
    obtain s0 created' hdr where b: "b = (s0, created', hdr)" by (cases b)
    obtain res s1 where mv: "split_move_file env s0 src dest = (res, s1)"
      by (cases "split_move_file env s0 src dest")
    show ?thesis
    proof (cases res)
      case (Inl e)
      with Cons.prems op Inr b mv have "r = Some (MoveFailed e)" "s' = s1" "c = c0" by auto
      with Inr b mv Inl op show ?thesis
        by (intro exI [of _ 0] exI [of _ s] exI [of _ created])
          (auto simp: op_src_def op_dest_def)
    next
      case (Inr u)
      obtain r2 s2 out2 c2 where
        rest: "run_split_moves env directory n_ops s1 created' (c0 + 1) ops = (r2, s2, out2, c2)"
        by (cases "run_split_moves env directory n_ops s1 created' (c0 + 1) ops")
      with Cons.prems op \<open>ensure_dir s created directory dir_name = Inr b\<close> b mv Inr
      have r: "r = r2" "s' = s2" "c = c2" by auto
      from Cons.IH [OF rest] obtain k s_k created_k where
        k: "k \<le> length ops" "c2 = c0 + 1 + k"
           "apply_steps (split_step env directory) (s1, created') (take k ops)
              = Some (s_k, created_k)"
           "if k = length ops then r2 = None \<and> s2 = s_k
            else (\<exists>e. r2 = Some (Crashed e)
                   \<and> ensure_dir s_k created_k directory (snd (snd (ops ! k))) = Inl (e, s2))
               \<or> (\<exists>e s0 created0 hdr. r2 = Some (MoveFailed e)
                   \<and> ensure_dir s_k created_k directory (snd (snd (ops ! k)))
                       = Inr (s0, created0, hdr)
                   \<and> split_move_file env s0 (op_src (ops ! k)) (op_dest (ops ! k)) = (Inl e, s2))"
        by blast
      have st: "split_step env directory (s, created) op = Some (s1, created')"
        using \<open>ensure_dir s created directory dir_name = Inr b\<close> b mv Inr op
        by (simp add: split_step_def op_src_def op_dest_def)
      have "Suc k \<le> length (op # ops) \<and> c = c0 + Suc k
         \<and> apply_steps (split_step env directory) (s, created) (take (Suc k) (op # ops))
             = Some (s_k, created_k)
         \<and> (if Suc k = length (op # ops) then r = None \<and> s' = s_k
            else (\<exists>e. r = Some (Crashed e)
                   \<and> ensure_dir s_k created_k directory (snd (snd ((op # ops) ! Suc k)))
                       = Inl (e, s'))
               \<or> (\<exists>e s0 created0 hdr. r = Some (MoveFailed e)
                   \<and> ensure_dir s_k created_k directory (snd (snd ((op # ops) ! Suc k)))
                       = Inr (s0, created0, hdr)
                   \<and> split_move_file env s0 (op_src ((op # ops) ! Suc k))
                       (op_dest ((op # ops) ! Suc k)) = (Inl e, s')))"
        using k r st by (cases "k = length ops") simp_all
      then show ?thesis by blast
    qed
  qed
qed

lemma run_moves_None_apply:
  assumes "run_moves sha env verify n_ops s c0 xs = (None, t, out, c)"
  shows "apply_steps (move_step sha env verify) s xs = Some t"
proof -
  from run_moves_stores [OF assms] obtain k s_k where
    k: "k \<le> length xs" "apply_steps (move_step sha env verify) s (take k xs) = Some s_k"
    and last: "if k = length xs then (None :: stop option) = None \<and> t = s_k
          else \<exists>e out_e. (None :: stop option) = Some (MoveFailed e)
             \<and> move_file sha env s_k (op_src (xs ! k)) (op_dest (xs ! k)) verify
                 = (Inl e, t, out_e)"
    by blast
  from last have "k = length xs" by (cases "k = length xs") simp_all
  with k last show ?thesis by simp
qed

lemma run_split_moves_None_apply:
  assumes "run_split_moves env directory n_ops s created c0 xs = (None, t, out, c)"
  shows "\<exists>created_t. apply_steps (split_step env directory) (s, created) xs
           = Some (t, created_t)"
proof -
  from run_split_moves_stores [OF assms] obtain k s_k created_k where
    k: "k \<le> length xs"
       "apply_steps (split_step env directory) (s, created) (take k xs) = Some (s_k, created_k)"
    and last: "if k = length xs then (None :: stop option) = None \<and> t = s_k
          else (\<exists>e. (None :: stop option) = Some (Crashed e)
                 \<and> ensure_dir s_k created_k directory (snd (snd (xs ! k))) = Inl (e, t))
             \<or> (\<exists>e s0 created0 hdr. (None :: stop option) = Some (MoveFailed e)
                 \<and> ensure_dir s_k created_k directory (snd (snd (xs ! k)))
                     = Inr (s0, created0, hdr)
                 \<and> split_move_file env s0 (op_src (xs ! k)) (op_dest (xs ! k)) = (Inl e, t))"
    by blast
  from last have "k = length xs" by (cases "k = length xs") simp_all
  with k last show ?thesis by simp
qed

text \<open>
  The consolidation loop, all in one: how many operations were carried out, that they
  were applied one after the other, what the output names, what is left of the files,
  and how the run ends.
\<close>

lemma run_moves_summary:
  assumes run: "run_moves sha env verify n_ops s c0 ops = (r, s', out, c)"
  shows "\<exists>k s_k. k \<le> length ops \<and> c = c0 + k
       \<and> apply_steps (move_step sha env verify) s (take k ops) = Some s_k
       \<and> moved_pairs out = map (\<lambda>(src, dest, renamed). (src, dest)) (take k ops)
       \<and> (op_src ` set ops \<inter> op_dest ` set ops = {} \<longrightarrow>
            (\<forall>j<k. files s' (op_dest (ops ! j)) \<noteq> None
                \<and> files s' (op_src (ops ! j)) = None))
       \<and> (distinct (map op_src ops) \<and> op_src ` set ops \<inter> op_dest ` set ops = {} \<longrightarrow>
            (\<forall>i. k \<le> i \<and> i < length ops \<longrightarrow>
                files s' (op_src (ops ! i)) = files s (op_src (ops ! i))))
       \<and> (if k = length ops
          then r = None \<and> s' = s_k
               \<and> finish (r, s', out, c) = (Returned, s', out @ [Summary c])
          else \<exists>e out_k out_e. r = Some (MoveFailed e)
               \<and> move_file sha env s_k (op_src (ops ! k)) (op_dest (ops ! k)) verify
                   = (Inl e, s', out_e)
               \<and> (\<forall>p. p \<noteq> op_dest (ops ! k) \<longrightarrow> files s' p = files s_k p)
               \<and> out = out_k @ out_e
                   @ [Failed (op_src (ops ! k)) (op_dest (ops ! k)) e, Stopping (c0 + k) n_ops]
               \<and> run_moves sha env verify n_ops s c0 (take (Suc k) ops) = (r, s', out, c)
               \<and> finish (r, s', out, c) = (Exit 1, s', out)
               \<and> exit_status (fst (finish (r, s', out, c))) = 1)"
proof -
  have frame: "(op_src ` set ops \<inter> op_dest ` set ops = {} \<longrightarrow>
            (\<forall>j<k. files s' (op_dest (ops ! j)) \<noteq> None
                \<and> files s' (op_src (ops ! j)) = None))
       \<and> (distinct (map op_src ops) \<and> op_src ` set ops \<inter> op_dest ` set ops = {} \<longrightarrow>
            (\<forall>i. k \<le> i \<and> i < length ops \<longrightarrow>
                files s' (op_src (ops ! i)) = files s (op_src (ops ! i))))"
    if k: "k \<le> length ops"
      and ap: "apply_steps (move_step sha env verify) s (take k ops) = Some s_k"
      and alldone: "k = length ops \<Longrightarrow> files s' = files s_k"
      and failed: "k < length ops \<Longrightarrow>
        (\<forall>p. p \<noteq> op_dest (ops ! k) \<longrightarrow> files s' p = files s_k p)
        \<and> (files s_k (op_dest (ops ! k)) \<noteq> None \<longrightarrow>
             files s' (op_dest (ops ! k)) = files s_k (op_dest (ops ! k)))"
    for k s_k
  proof (rule first_failure_frame [where fl = files and src = op_src and dst = op_dest
        and step = "move_step sha env verify" and st = s and t = s_k])
    show "\<And>st op st'. move_step sha env verify st op = Some st' \<Longrightarrow>
      files st (op_dest op) = None \<and> files st' (op_src op) = None
      \<and> files st' (op_dest op) \<noteq> None
      \<and> (\<forall>p. p \<noteq> op_src op \<and> p \<noteq> op_dest op \<longrightarrow> files st' p = files st p)"
      by (rule move_step_frame)
    show "apply_steps (move_step sha env verify) s (take k ops) = Some s_k" by (rule ap)
    show "k \<le> length ops" by (rule k)
    show "files s' = files s_k" if "k = length ops" using that by (rule alldone)
    show "(\<forall>p. p \<noteq> op_dest (ops ! k) \<longrightarrow> files s' p = files s_k p)
        \<and> (files s_k (op_dest (ops ! k)) \<noteq> None \<longrightarrow>
             files s' (op_dest (ops ! k)) = files s_k (op_dest (ops ! k)))"
      if "k < length ops" using that by (rule failed)
  qed
  from run_moves_cases [OF run] consider
    (all) "r = None" "c = c0 + length ops"
          "moved_pairs out = map (\<lambda>(src, dest, renamed). (src, dest)) ops"
  | (stopped) k e s_k out_k out_e src dest renamed where
      "k < length ops" "ops ! k = (src, dest, renamed)"
      "run_moves sha env verify n_ops s c0 (take k ops) = (None, s_k, out_k, c0 + k)"
      "move_file sha env s_k src dest verify = (Inl e, s', out_e)"
      "run_moves sha env verify n_ops s c0 (take (Suc k) ops) = (r, s', out, c)"
      "r = Some (MoveFailed e)" "c = c0 + k"
      "out = out_k @ out_e @ [Failed src dest e, Stopping (c0 + k) n_ops]"
      "moved_pairs out = map (\<lambda>(src, dest, renamed). (src, dest)) (take k ops)"
    by blast
  then show ?thesis
  proof cases
    case all
    from run all(1) have ap: "apply_steps (move_step sha env verify) s ops = Some s'"
      using run_moves_None_apply by blast
    have fr: "(op_src ` set ops \<inter> op_dest ` set ops = {} \<longrightarrow>
            (\<forall>j<length ops. files s' (op_dest (ops ! j)) \<noteq> None
                \<and> files s' (op_src (ops ! j)) = None))
       \<and> (distinct (map op_src ops) \<and> op_src ` set ops \<inter> op_dest ` set ops = {} \<longrightarrow>
            (\<forall>i. length ops \<le> i \<and> i < length ops \<longrightarrow>
                files s' (op_src (ops ! i)) = files s (op_src (ops ! i))))"
      by (rule frame [of "length ops" s']) (use ap in simp_all)
    show ?thesis
      using all ap
      by (intro exI [of _ "length ops"] exI [of _ s'] conjI conjunct1 [OF fr] conjunct2 [OF fr])
        (simp_all add: finish_def)
  next
    case stopped
    from stopped(3) have ap: "apply_steps (move_step sha env verify) s (take k ops) = Some s_k"
      by (rule run_moves_None_apply)
    have mv: "move_file sha env s_k (op_src (ops ! k)) (op_dest (ops ! k)) verify
        = (Inl e, s', out_e)"
      using stopped(2,4) by (simp add: op_src_def op_dest_def)
    note ch = move_file_failure_frame [OF mv]
    have fr: "(op_src ` set ops \<inter> op_dest ` set ops = {} \<longrightarrow>
            (\<forall>j<k. files s' (op_dest (ops ! j)) \<noteq> None
                \<and> files s' (op_src (ops ! j)) = None))
       \<and> (distinct (map op_src ops) \<and> op_src ` set ops \<inter> op_dest ` set ops = {} \<longrightarrow>
            (\<forall>i. k \<le> i \<and> i < length ops \<longrightarrow>
                files s' (op_src (ops ! i)) = files s (op_src (ops ! i))))"
    proof (rule frame [of k s_k])
      show "k \<le> length ops" using stopped(1) by simp
      show "apply_steps (move_step sha env verify) s (take k ops) = Some s_k" by (rule ap)
      show "files s' = files s_k" if "k = length ops" using that stopped(1) by simp
      show "(\<forall>p. p \<noteq> op_dest (ops ! k) \<longrightarrow> files s' p = files s_k p)
        \<and> (files s_k (op_dest (ops ! k)) \<noteq> None \<longrightarrow>
             files s' (op_dest (ops ! k)) = files s_k (op_dest (ops ! k)))"
        by (rule ch)
    qed
    have tail: "\<exists>e out_k out_e. r = Some (MoveFailed e)
               \<and> move_file sha env s_k (op_src (ops ! k)) (op_dest (ops ! k)) verify
                   = (Inl e, s', out_e)
               \<and> (\<forall>p. p \<noteq> op_dest (ops ! k) \<longrightarrow> files s' p = files s_k p)
               \<and> out = out_k @ out_e
                   @ [Failed (op_src (ops ! k)) (op_dest (ops ! k)) e, Stopping (c0 + k) n_ops]
               \<and> run_moves sha env verify n_ops s c0 (take (Suc k) ops) = (r, s', out, c)
               \<and> finish (r, s', out, c) = (Exit 1, s', out)
               \<and> exit_status (fst (finish (r, s', out, c))) = 1"
      using stopped mv conjunct1 [OF ch]
      by (intro exI [of _ e] exI [of _ out_k] exI [of _ out_e])
        (simp add: finish_def op_src_def op_dest_def)
    have fin: "(if k = length ops
          then r = None \<and> s' = s_k
               \<and> finish (r, s', out, c) = (Returned, s', out @ [Summary c])
          else \<exists>e out_k out_e. r = Some (MoveFailed e)
               \<and> move_file sha env s_k (op_src (ops ! k)) (op_dest (ops ! k)) verify
                   = (Inl e, s', out_e)
               \<and> (\<forall>p. p \<noteq> op_dest (ops ! k) \<longrightarrow> files s' p = files s_k p)
               \<and> out = out_k @ out_e
                   @ [Failed (op_src (ops ! k)) (op_dest (ops ! k)) e, Stopping (c0 + k) n_ops]
               \<and> run_moves sha env verify n_ops s c0 (take (Suc k) ops) = (r, s', out, c)
               \<and> finish (r, s', out, c) = (Exit 1, s', out)
               \<and> exit_status (fst (finish (r, s', out, c))) = 1)"
      using stopped(1) tail by simp
    show ?thesis
      using stopped(1,7,9) ap
      by (intro exI [of _ k] exI [of _ s_k] conjI conjunct1 [OF fr] conjunct2 [OF fr] fin)
        simp_all
  qed
qed

text \<open>
  The loop of the split tool over a list that begins with operations that can all be
  applied: it prints their lines and goes on, from the store and the directories they
  left, with the rest of the list.
\<close>

lemma run_split_moves_after:
  assumes "apply_steps (split_step env directory) (s, created) xs = Some (s_k, created_k)"
  shows "\<exists>out_k. moved_pairs out_k = map (\<lambda>(src, dest, dir_name). (src, dest)) xs
       \<and> (\<forall>ys. run_split_moves env directory n_ops s created c0 (xs @ ys)
            = (case run_split_moves env directory n_ops s_k created_k (c0 + length xs) ys of
                 (r, s'', out', c) \<Rightarrow> (r, s'', out_k @ out', c)))"
  using assms
proof (induction xs arbitrary: s created c0)
  case Nil
  then show ?case by (intro exI [of _ "[]"]) (simp split: prod.splits)
next
  case (Cons op xs)
  obtain src dest dir_name where op: "op = (src, dest, dir_name)" by (cases op)
  from Cons.prems obtain st1 where
    st: "split_step env directory (s, created) op = Some st1" and
    rest: "apply_steps (split_step env directory) st1 xs = Some (s_k, created_k)"
    by (auto split: option.splits)
  from st op obtain s0 created' hdr u s1 where
    e: "ensure_dir s created directory dir_name = Inr (s0, created', hdr)" and
    m: "split_move_file env s0 src dest = (Inr u, s1)" and
    st1: "st1 = (s1, created')"
    by (auto simp: split_step_def op_src_def op_dest_def split: prod.splits sum.splits)
  from Cons.IH [of s1 created' "c0 + 1"] rest st1 obtain out1 where
    o1: "moved_pairs out1 = map (\<lambda>(src, dest, dir_name). (src, dest)) xs" and
    r1: "\<And>ys. run_split_moves env directory n_ops s1 created' (c0 + 1) (xs @ ys)
            = (case run_split_moves env directory n_ops s_k created_k (c0 + 1 + length xs) ys of
                 (r, s'', out', c) \<Rightarrow> (r, s'', out1 @ out', c))"
    by blast
  have "moved_pairs (hdr @ [Moved src dest] @ out1)
      = map (\<lambda>(src, dest, dir_name). (src, dest)) (op # xs)"
    using o1 ensure_dir_prints [OF e] op by (simp add: moved_pairs_append)
  moreover have "\<forall>ys. run_split_moves env directory n_ops s created c0 ((op # xs) @ ys)
            = (case run_split_moves env directory n_ops s_k created_k
                      (c0 + length (op # xs)) ys of
                 (r, s'', out', c) \<Rightarrow> (r, s'', (hdr @ [Moved src dest] @ out1) @ out', c))"
    using e m op r1 by (simp split: prod.splits)
  ultimately show ?case by blast
qed

text \<open>
  The loop of the split tool, all in one, likewise. It stops at the first operation whose
  directory cannot be created, when the exception escapes, or whose move fails.
\<close>

lemma run_split_moves_summary:
  assumes run: "run_split_moves env directory n_ops s created c0 ops = (r, s', out, c)"
  shows "\<exists>k s_k created_k. k \<le> length ops \<and> c = c0 + k
       \<and> apply_steps (split_step env directory) (s, created) (take k ops)
           = Some (s_k, created_k)
       \<and> moved_pairs out = map (\<lambda>(src, dest, dir_name). (src, dest)) (take k ops)
       \<and> (op_src ` set ops \<inter> op_dest ` set ops = {} \<longrightarrow>
            (\<forall>j<k. files s' (op_dest (ops ! j)) \<noteq> None
                \<and> files s' (op_src (ops ! j)) = None))
       \<and> (distinct (map op_src ops) \<and> op_src ` set ops \<inter> op_dest ` set ops = {} \<longrightarrow>
            (\<forall>i. k \<le> i \<and> i < length ops \<longrightarrow>
                files s' (op_src (ops ! i)) = files s (op_src (ops ! i))))
       \<and> (if k = length ops
          then r = None \<and> s' = s_k
               \<and> finish (r, s', out, c) = (Returned, s', out @ [Summary c])
          else ((\<exists>e. r = Some (Crashed e) \<and> s' = s_k
                   \<and> ensure_dir s_k created_k directory (snd (snd (ops ! k))) = Inl (e, s')
                   \<and> finish (r, s', out, c) = (Uncaught e, s', out))
                \<or> (\<exists>e s0 created0 hdr out_k. r = Some (MoveFailed e)
                   \<and> ensure_dir s_k created_k directory (snd (snd (ops ! k)))
                       = Inr (s0, created0, hdr)
                   \<and> split_move_file env s0 (op_src (ops ! k)) (op_dest (ops ! k))
                       = (Inl e, s')
                   \<and> (\<forall>p. p \<noteq> op_dest (ops ! k) \<longrightarrow> files s' p = files s_k p)
                   \<and> out = out_k @ hdr
                       @ [Failed (op_src (ops ! k)) (op_dest (ops ! k)) e,
                          Stopping (c0 + k) n_ops]
                   \<and> finish (r, s', out, c) = (Exit 1, s', out)))
               \<and> run_split_moves env directory n_ops s created c0 (take (Suc k) ops)
                   = (r, s', out, c)
               \<and> exit_status (fst (finish (r, s', out, c))) = 1)"
proof -
  from run_split_moves_stores [OF run] obtain k s_k created_k where
    k: "k \<le> length ops" "c = c0 + k" and
    ap: "apply_steps (split_step env directory) (s, created) (take k ops)
           = Some (s_k, created_k)" and
    last: "if k = length ops then r = None \<and> s' = s_k
          else (\<exists>e. r = Some (Crashed e)
                 \<and> ensure_dir s_k created_k directory (snd (snd (ops ! k))) = Inl (e, s'))
             \<or> (\<exists>e s0 created0 hdr. r = Some (MoveFailed e)
                 \<and> ensure_dir s_k created_k directory (snd (snd (ops ! k)))
                     = Inr (s0, created0, hdr)
                 \<and> split_move_file env s0 (op_src (ops ! k)) (op_dest (ops ! k)) = (Inl e, s'))"
    by blast
  from run_split_moves_after [OF ap, of n_ops c0] k(1) obtain out_k where
    mp: "moved_pairs out_k = map (\<lambda>(src, dest, dir_name). (src, dest)) (take k ops)" and
    app: "\<And>ys. run_split_moves env directory n_ops s created c0 (take k ops @ ys)
            = (case run_split_moves env directory n_ops s_k created_k (c0 + k) ys of
                 (r, s'', out', c) \<Rightarrow> (r, s'', out_k @ out', c))"
    by (auto simp: min_def)
  have frame: "(op_src ` set ops \<inter> op_dest ` set ops = {} \<longrightarrow>
            (\<forall>j<k. files s' (op_dest (ops ! j)) \<noteq> None
                \<and> files s' (op_src (ops ! j)) = None))
       \<and> (distinct (map op_src ops) \<and> op_src ` set ops \<inter> op_dest ` set ops = {} \<longrightarrow>
            (\<forall>i. k \<le> i \<and> i < length ops \<longrightarrow>
                files s' (op_src (ops ! i)) = files s (op_src (ops ! i))))"
    if alldone: "k = length ops \<Longrightarrow> files s' = files s_k"
      and failed: "k < length ops \<Longrightarrow>
        (\<forall>p. p \<noteq> op_dest (ops ! k) \<longrightarrow> files s' p = files s_k p)
        \<and> (files s_k (op_dest (ops ! k)) \<noteq> None \<longrightarrow>
             files s' (op_dest (ops ! k)) = files s_k (op_dest (ops ! k)))"
  proof -
    have "(op_src ` set ops \<inter> op_dest ` set ops = {} \<longrightarrow>
            (\<forall>j<k. files s' (op_dest (ops ! j)) \<noteq> None
                \<and> files s' (op_src (ops ! j)) = None))
       \<and> (distinct (map op_src ops) \<and> op_src ` set ops \<inter> op_dest ` set ops = {} \<longrightarrow>
            (\<forall>i. k \<le> i \<and> i < length ops \<longrightarrow>
                files s' (op_src (ops ! i)) = files (fst (s, created)) (op_src (ops ! i))))"
    proof (rule first_failure_frame [where fl = "\<lambda>st. files (fst st)" and src = op_src
          and dst = op_dest and step = "split_step env directory" and st = "(s, created)"
          and t = "(s_k, created_k)"])
      show "\<And>st op st'. split_step env directory st op = Some st' \<Longrightarrow>
        files (fst st) (op_dest op) = None \<and> files (fst st') (op_src op) = None
        \<and> files (fst st') (op_dest op) \<noteq> None
        \<and> (\<forall>p. p \<noteq> op_src op \<and> p \<noteq> op_dest op \<longrightarrow> files (fst st') p = files (fst st) p)"
        by (rule split_step_frame)
      show "apply_steps (split_step env directory) (s, created) (take k ops)
          = Some (s_k, created_k)" by (rule ap)
      show "k \<le> length ops" by (rule k(1))
      show "files s' = files (fst (s_k, created_k))" if "k = length ops"
        using alldone [OF that] by simp
      show "(\<forall>p. p \<noteq> op_dest (ops ! k) \<longrightarrow> files s' p = files (fst (s_k, created_k)) p)
          \<and> (files (fst (s_k, created_k)) (op_dest (ops ! k)) \<noteq> None \<longrightarrow>
               files s' (op_dest (ops ! k)) = files (fst (s_k, created_k)) (op_dest (ops ! k)))"
        if "k < length ops" using failed [OF that] by simp
    qed
    then show ?thesis by simp
  qed
  show ?thesis
  proof (cases "k = length ops")
    case True
    with last have r: "r = None" "s' = s_k" by simp_all
    from app [of "[]"] True run have o: "out = out_k" by simp
    have fr: "(op_src ` set ops \<inter> op_dest ` set ops = {} \<longrightarrow>
            (\<forall>j<k. files s' (op_dest (ops ! j)) \<noteq> None
                \<and> files s' (op_src (ops ! j)) = None))
       \<and> (distinct (map op_src ops) \<and> op_src ` set ops \<inter> op_dest ` set ops = {} \<longrightarrow>
            (\<forall>i. k \<le> i \<and> i < length ops \<longrightarrow>
                files s' (op_src (ops ! i)) = files s (op_src (ops ! i))))"
      by (rule frame) (use r True in simp_all)
    have mpo: "moved_pairs out = map (\<lambda>(src, dest, dir_name). (src, dest)) (take k ops)"
      using mp o by simp
    have fin: "(if k = length ops
          then r = None \<and> s' = s_k
               \<and> finish (r, s', out, c) = (Returned, s', out @ [Summary c])
          else ((\<exists>e. r = Some (Crashed e) \<and> s' = s_k
                   \<and> ensure_dir s_k created_k directory (snd (snd (ops ! k))) = Inl (e, s')
                   \<and> finish (r, s', out, c) = (Uncaught e, s', out))
                \<or> (\<exists>e s0 created0 hdr out_k. r = Some (MoveFailed e)
                   \<and> ensure_dir s_k created_k directory (snd (snd (ops ! k)))
                       = Inr (s0, created0, hdr)
                   \<and> split_move_file env s0 (op_src (ops ! k)) (op_dest (ops ! k))
                       = (Inl e, s')
                   \<and> (\<forall>p. p \<noteq> op_dest (ops ! k) \<longrightarrow> files s' p = files s_k p)
                   \<and> out = out_k @ hdr
                       @ [Failed (op_src (ops ! k)) (op_dest (ops ! k)) e,
                          Stopping (c0 + k) n_ops]
                   \<and> finish (r, s', out, c) = (Exit 1, s', out)))
               \<and> run_split_moves env directory n_ops s created c0 (take (Suc k) ops)
                   = (r, s', out, c)
               \<and> exit_status (fst (finish (r, s', out, c))) = 1)"
      using True r by (simp add: finish_def)
    show ?thesis
      using k ap mpo
      by (intro exI [of _ k] exI [of _ s_k] exI [of _ created_k] conjI
          conjunct1 [OF fr] conjunct2 [OF fr] fin) simp_all
  next
    case False
    with k(1) have kl: "k < length ops" by simp
    obtain src dest dir_name where op: "ops ! k = (src, dest, dir_name)" by (cases "ops ! k")
    have split: "ops = take k ops @ (src, dest, dir_name) # drop (Suc k) ops"
      using id_take_nth_drop [OF kl] op by simp
    have pre: "take (Suc k) ops = take k ops @ [(src, dest, dir_name)]"
      using take_Suc_conv_app_nth [OF kl] op by simp
    from last False consider
      (crash) e where "r = Some (Crashed e)"
        "ensure_dir s_k created_k directory dir_name = Inl (e, s')"
    | (move) e s0 created0 hdr where "r = Some (MoveFailed e)"
        "ensure_dir s_k created_k directory dir_name = Inr (s0, created0, hdr)"
        "split_move_file env s0 src dest = (Inl e, s')"
      using op by (auto simp: op_src_def op_dest_def)
    then show ?thesis
    proof cases
      case crash
      have same: "s' = s_k" using ensure_dir_files(2) [OF crash(2)] by simp
      have one: "\<And>rest. run_split_moves env directory n_ops s created c0
            (take k ops @ (src, dest, dir_name) # rest) = (r, s', out_k, c)"
        using crash k(2) by (simp add: app)
      from one [of "drop (Suc k) ops"] split run have o: "out = out_k" by simp
      have fr: "(op_src ` set ops \<inter> op_dest ` set ops = {} \<longrightarrow>
            (\<forall>j<k. files s' (op_dest (ops ! j)) \<noteq> None
                \<and> files s' (op_src (ops ! j)) = None))
       \<and> (distinct (map op_src ops) \<and> op_src ` set ops \<inter> op_dest ` set ops = {} \<longrightarrow>
            (\<forall>i. k \<le> i \<and> i < length ops \<longrightarrow>
                files s' (op_src (ops ! i)) = files s (op_src (ops ! i))))"
        by (rule frame) (use same in simp_all)
      have fin: "(if k = length ops
          then r = None \<and> s' = s_k
               \<and> finish (r, s', out, c) = (Returned, s', out @ [Summary c])
          else ((\<exists>e. r = Some (Crashed e) \<and> s' = s_k
                   \<and> ensure_dir s_k created_k directory (snd (snd (ops ! k))) = Inl (e, s')
                   \<and> finish (r, s', out, c) = (Uncaught e, s', out))
                \<or> (\<exists>e s0 created0 hdr out_k. r = Some (MoveFailed e)
                   \<and> ensure_dir s_k created_k directory (snd (snd (ops ! k)))
                       = Inr (s0, created0, hdr)
                   \<and> split_move_file env s0 (op_src (ops ! k)) (op_dest (ops ! k))
                       = (Inl e, s')
                   \<and> (\<forall>p. p \<noteq> op_dest (ops ! k) \<longrightarrow> files s' p = files s_k p)
                   \<and> out = out_k @ hdr
                       @ [Failed (op_src (ops ! k)) (op_dest (ops ! k)) e,
                          Stopping (c0 + k) n_ops]
                   \<and> finish (r, s', out, c) = (Exit 1, s', out)))
               \<and> run_split_moves env directory n_ops s created c0 (take (Suc k) ops)
                   = (r, s', out, c)
               \<and> exit_status (fst (finish (r, s', out, c))) = 1)"
        using False crash same op o one [of "[]"] pre by (simp add: finish_def)
      have mpo: "moved_pairs out = map (\<lambda>(src, dest, dir_name). (src, dest)) (take k ops)"
        using mp o by simp
      show ?thesis
        using k ap mpo
        by (intro exI [of _ k] exI [of _ s_k] exI [of _ created_k] conjI
            conjunct1 [OF fr] conjunct2 [OF fr] fin) simp_all
    next
      case move
      have one: "\<And>rest. run_split_moves env directory n_ops s created c0
            (take k ops @ (src, dest, dir_name) # rest)
          = (r, s', out_k @ hdr @ [Failed src dest e, Stopping (c0 + k) n_ops], c)"
        using move k(2) by (simp add: app)
      from one [of "drop (Suc k) ops"] split run
      have o: "out = out_k @ hdr @ [Failed src dest e, Stopping (c0 + k) n_ops]" by simp
      have mpo: "moved_pairs out = map (\<lambda>(src, dest, dir_name). (src, dest)) (take k ops)"
        using mp o ensure_dir_prints [OF move(2)] by (simp add: moved_pairs_append)
      have mv: "split_move_file env s0 (op_src (ops ! k)) (op_dest (ops ! k)) = (Inl e, s')"
        using move(3) op by (simp add: op_src_def op_dest_def)
      have ch: "(\<forall>p. p \<noteq> op_dest (ops ! k) \<longrightarrow> files s' p = files s_k p)
        \<and> (files s_k (op_dest (ops ! k)) \<noteq> None \<longrightarrow>
             files s' (op_dest (ops ! k)) = files s_k (op_dest (ops ! k)))"
        using split_move_file_failure_frame [OF mv] ensure_dir_files(1) [OF move(2)]
        by simp
      have fr: "(op_src ` set ops \<inter> op_dest ` set ops = {} \<longrightarrow>
            (\<forall>j<k. files s' (op_dest (ops ! j)) \<noteq> None
                \<and> files s' (op_src (ops ! j)) = None))
       \<and> (distinct (map op_src ops) \<and> op_src ` set ops \<inter> op_dest ` set ops = {} \<longrightarrow>
            (\<forall>i. k \<le> i \<and> i < length ops \<longrightarrow>
                files s' (op_src (ops ! i)) = files s (op_src (ops ! i))))"
      proof (rule frame)
        show "files s' = files s_k" if "k = length ops" using that False by simp
        show "(\<forall>p. p \<noteq> op_dest (ops ! k) \<longrightarrow> files s' p = files s_k p)
        \<and> (files s_k (op_dest (ops ! k)) \<noteq> None \<longrightarrow>
             files s' (op_dest (ops ! k)) = files s_k (op_dest (ops ! k)))"
          by (rule ch)
      qed
      have tail: "\<exists>e s0 created0 hdr out_k. r = Some (MoveFailed e)
                   \<and> ensure_dir s_k created_k directory (snd (snd (ops ! k)))
                       = Inr (s0, created0, hdr)
                   \<and> split_move_file env s0 (op_src (ops ! k)) (op_dest (ops ! k))
                       = (Inl e, s')
                   \<and> (\<forall>p. p \<noteq> op_dest (ops ! k) \<longrightarrow> files s' p = files s_k p)
                   \<and> out = out_k @ hdr
                       @ [Failed (op_src (ops ! k)) (op_dest (ops ! k)) e,
                          Stopping (c0 + k) n_ops]
                   \<and> finish (r, s', out, c) = (Exit 1, s', out)"
        using move(1,2) mv o op conjunct1 [OF ch]
        by (intro exI [of _ e] exI [of _ s0] exI [of _ created0] exI [of _ hdr]
            exI [of _ out_k]) (simp add: finish_def op_src_def op_dest_def)
      have fin: "(if k = length ops
          then r = None \<and> s' = s_k
               \<and> finish (r, s', out, c) = (Returned, s', out @ [Summary c])
          else ((\<exists>e. r = Some (Crashed e) \<and> s' = s_k
                   \<and> ensure_dir s_k created_k directory (snd (snd (ops ! k))) = Inl (e, s')
                   \<and> finish (r, s', out, c) = (Uncaught e, s', out))
                \<or> (\<exists>e s0 created0 hdr out_k. r = Some (MoveFailed e)
                   \<and> ensure_dir s_k created_k directory (snd (snd (ops ! k)))
                       = Inr (s0, created0, hdr)
                   \<and> split_move_file env s0 (op_src (ops ! k)) (op_dest (ops ! k))
                       = (Inl e, s')
                   \<and> (\<forall>p. p \<noteq> op_dest (ops ! k) \<longrightarrow> files s' p = files s_k p)
                   \<and> out = out_k @ hdr
                       @ [Failed (op_src (ops ! k)) (op_dest (ops ! k)) e,
                          Stopping (c0 + k) n_ops]
                   \<and> finish (r, s', out, c) = (Exit 1, s', out)))
               \<and> run_split_moves env directory n_ops s created c0 (take (Suc k) ops)
                   = (r, s', out, c)
               \<and> exit_status (fst (finish (r, s', out, c))) = 1)"
      proof -
        have a: "run_split_moves env directory n_ops s created c0 (take (Suc k) ops)
                   = (r, s', out, c)"
          using one [of "[]"] pre o by simp
        have b: "exit_status (fst (finish (r, s', out, c))) = 1"
          using move(1) by (simp add: finish_def)
        from False tail a b show ?thesis by simp
      qed
      show ?thesis
        using k ap mpo
        by (intro exI [of _ k] exI [of _ s_k] exI [of _ created_k] conjI
            conjunct1 [OF fr] conjunct2 [OF fr] fin) simp_all
    qed
  qed
qed

text \<open>
  C5: both tools apply the planned operations in their order, each move starting from
  the store that the move before it has left, and stop at the first one that fails. For
  every run of either loop there is a number \<open>k\<close> of completed moves: the count of
  the loop is \<open>k\<close> more than at the start; the first \<open>k\<close> operations have been
  applied one after the other, which gives a store \<open>s_k\<close>; and the lines \<open>Moved\<close>
  of the output are exactly their pairs, in order. If \<open>k\<close> is the number of
  operations, the loop ends in \<open>s_k\<close> and \<open>main\<close> returns after the summary.
  Otherwise the move of operation \<open>k\<close>, called in \<open>s_k\<close>, raised an exception and
  left the store of the result, whose files are those of \<open>s_k\<close> everywhere but,
  possibly, at the destination of that operation; the output ends with the failed pair
  and \<open>k\<close> out of the number of operations; the operations after \<open>k\<close> play no part
  in the result, which is that of the loop over the first \<open>k + 1\<close> operations; and
  \<open>main\<close> raises \<open>typer.Exit(1)\<close>, so the exit status is 1. In the split tool the
  directory of operation \<open>k\<close> may also fail to be created, before its move is tried:
  then the exception escapes with the store \<open>s_k\<close>, and the exit status is 1 as well.

  The completed moves are left in place: when no source is a destination, then in the
  store at the end the destinations of the first \<open>k\<close> operations hold files and their
  sources hold none; when moreover the sources are pairwise different, the sources of all
  the other operations hold what they held at the start.
\<close>

theorem C5_moves_stop_at_first_failure:
  "(run_moves sha env verify n_ops s c0 ops = (r, s', out, c) \<longrightarrow>
      (\<exists>k s_k. k \<le> length ops \<and> c = c0 + k
         \<and> apply_steps (move_step sha env verify) s (take k ops) = Some s_k
         \<and> moved_pairs out = map (\<lambda>(src, dest, renamed). (src, dest)) (take k ops)
         \<and> (op_src ` set ops \<inter> op_dest ` set ops = {} \<longrightarrow>
              (\<forall>j<k. files s' (op_dest (ops ! j)) \<noteq> None
                  \<and> files s' (op_src (ops ! j)) = None))
         \<and> (distinct (map op_src ops) \<and> op_src ` set ops \<inter> op_dest ` set ops = {} \<longrightarrow>
              (\<forall>i. k \<le> i \<and> i < length ops \<longrightarrow>
                  files s' (op_src (ops ! i)) = files s (op_src (ops ! i))))
         \<and> (if k = length ops
            then r = None \<and> s' = s_k
                 \<and> finish (r, s', out, c) = (Returned, s', out @ [Summary c])
            else \<exists>e out_k out_e. r = Some (MoveFailed e)
                 \<and> move_file sha env s_k (op_src (ops ! k)) (op_dest (ops ! k)) verify
                     = (Inl e, s', out_e)
                 \<and> (\<forall>p. p \<noteq> op_dest (ops ! k) \<longrightarrow> files s' p = files s_k p)
                 \<and> out = out_k @ out_e
                     @ [Failed (op_src (ops ! k)) (op_dest (ops ! k)) e, Stopping (c0 + k) n_ops]
                 \<and> run_moves sha env verify n_ops s c0 (take (Suc k) ops) = (r, s', out, c)
                 \<and> finish (r, s', out, c) = (Exit 1, s', out)
                 \<and> exit_status (fst (finish (r, s', out, c))) = 1)))
   \<and> (run_split_moves env directory n_ops s created c0 sops = (r2, t', out2, c2) \<longrightarrow>
      (\<exists>k t_k created_k. k \<le> length sops \<and> c2 = c0 + k
         \<and> apply_steps (split_step env directory) (s, created) (take k sops)
             = Some (t_k, created_k)
         \<and> moved_pairs out2 = map (\<lambda>(src, dest, dir_name). (src, dest)) (take k sops)
         \<and> (op_src ` set sops \<inter> op_dest ` set sops = {} \<longrightarrow>
              (\<forall>j<k. files t' (op_dest (sops ! j)) \<noteq> None
                  \<and> files t' (op_src (sops ! j)) = None))
         \<and> (distinct (map op_src sops) \<and> op_src ` set sops \<inter> op_dest ` set sops = {} \<longrightarrow>
              (\<forall>i. k \<le> i \<and> i < length sops \<longrightarrow>
                  files t' (op_src (sops ! i)) = files s (op_src (sops ! i))))
         \<and> (if k = length sops
            then r2 = None \<and> t' = t_k
                 \<and> finish (r2, t', out2, c2) = (Returned, t', out2 @ [Summary c2])
            else ((\<exists>e. r2 = Some (Crashed e) \<and> t' = t_k
                     \<and> ensure_dir t_k created_k directory (snd (snd (sops ! k))) = Inl (e, t')
                     \<and> finish (r2, t', out2, c2) = (Uncaught e, t', out2))
                  \<or> (\<exists>e s0 created0 hdr out_k. r2 = Some (MoveFailed e)
                     \<and> ensure_dir t_k created_k directory (snd (snd (sops ! k)))
                         = Inr (s0, created0, hdr)
                     \<and> split_move_file env s0 (op_src (sops ! k)) (op_dest (sops ! k))
                         = (Inl e, t')
                     \<and> (\<forall>p. p \<noteq> op_dest (sops ! k) \<longrightarrow> files t' p = files t_k p)
                     \<and> out2 = out_k @ hdr
                         @ [Failed (op_src (sops ! k)) (op_dest (sops ! k)) e,
                            Stopping (c0 + k) n_ops]
                     \<and> finish (r2, t', out2, c2) = (Exit 1, t', out2)))
                 \<and> run_split_moves env directory n_ops s created c0 (take (Suc k) sops)
                     = (r2, t', out2, c2)
                 \<and> exit_status (fst (finish (r2, t', out2, c2))) = 1)))"
  (is "(_ \<longrightarrow> ?A) \<and> (_ \<longrightarrow> ?B)")
proof (intro conjI impI)
  assume "run_moves sha env verify n_ops s c0 ops = (r, s', out, c)"
  then show ?A by (rule run_moves_summary)
next
  assume "run_split_moves env directory n_ops s created c0 sops = (r2, t', out2, c2)"
  then show ?B by (rule run_split_moves_summary)
qed

text \<open>
  The theorem at work: of three operations whose second move is refused, the first is
  carried out, the second fails, the third is not touched, and the run ends with
  \<open>typer.Exit(1)\<close> after reporting 1 of 3. In the split tool likewise. The sources
  are pairwise different and none is a destination, so that the file moved first is at
  its destination in the end.
\<close>

theorem C5_moves_stop_at_first_failure_witness:
  "(case run_moves ex_sha env_b_denied False 3 ex_store3 0 ex_moves of
      (r, s', out, c) \<Rightarrow>
        r = Some (MoveFailed (OSError 13)) \<and> c = 1
        \<and> out = [Moved [''in'', ''a''] [''out'', ''a''],
                  Failed [''in'', ''b''] [''out'', ''b''] (OSError 13), Stopping 1 3]
        \<and> files s' [''out'', ''a''] = Some [1] \<and> files s' [''in'', ''a''] = None
        \<and> files s' [''in'', ''b''] = Some [2, 2] \<and> files s' [''out'', ''b''] = None
        \<and> files s' [''in'', ''c''] = Some [3, 3, 3] \<and> files s' [''out'', ''c''] = None
        \<and> fst (finish (r, s', out, c)) = Exit 1
        \<and> (\<exists>k s_k. k \<le> length ex_moves \<and> c = 0 + k
              \<and> apply_steps (move_step ex_sha env_b_denied False) ex_store3 (take k ex_moves)
                  = Some s_k
              \<and> (\<forall>j<k. files s' (op_dest (ex_moves ! j)) \<noteq> None
                    \<and> files s' (op_src (ex_moves ! j)) = None)
              \<and> (\<forall>i. k \<le> i \<and> i < length ex_moves \<longrightarrow>
                    files s' (op_src (ex_moves ! i)) = files ex_store3 (op_src (ex_moves ! i)))))
   \<and> distinct (map op_src ex_moves) \<and> op_src ` set ex_moves \<inter> op_dest ` set ex_moves = {}
   \<and> apply_steps (move_step ex_sha env_b_denied False) ex_store3 (take 1 ex_moves)
       = Some (ex_store3\<lparr>files := (files ex_store3)([''in'', ''a''] := None,
                                                      [''out'', ''a''] \<mapsto> [1])\<rparr>)
   \<and> apply_steps (move_step ex_sha env_b_denied False) ex_store3 (take 2 ex_moves) = None
   \<and> (case run_split_moves env_b_denied [''in''] 3 ex_store3 {||} 0 ex_split_moves of
      (r, s', out, c) \<Rightarrow>
        r = Some (MoveFailed (OSError 13)) \<and> c = 1
        \<and> out = [DirectoryHeader ''1'', Moved [''in'', ''a''] [''in'', ''1'', ''a''],
                  Failed [''in'', ''b''] [''in'', ''1'', ''b''] (OSError 13), Stopping 1 3]
        \<and> files s' [''in'', ''1'', ''a''] = Some [1] \<and> files s' [''in'', ''a''] = None
        \<and> files s' [''in'', ''b''] = Some [2, 2]
        \<and> files s' [''in'', ''c''] = Some [3, 3, 3] \<and> [''in'', ''2''] \<notin> dirs s'
        \<and> fst (finish (r, s', out, c)) = Exit 1
        \<and> (\<exists>k s_k created_k. k \<le> length ex_split_moves \<and> c = 0 + k
              \<and> apply_steps (split_step env_b_denied [''in'']) (ex_store3, {||})
                    (take k ex_split_moves) = Some (s_k, created_k)
              \<and> (\<forall>j<k. files s' (op_dest (ex_split_moves ! j)) \<noteq> None
                    \<and> files s' (op_src (ex_split_moves ! j)) = None)
              \<and> (\<forall>i. k \<le> i \<and> i < length ex_split_moves \<longrightarrow>
                    files s' (op_src (ex_split_moves ! i))
                      = files ex_store3 (op_src (ex_split_moves ! i)))))
   \<and> distinct (map op_src ex_split_moves)
   \<and> op_src ` set ex_split_moves \<inter> op_dest ` set ex_split_moves = {}"
proof -
  obtain r s' out c where
    run: "run_moves ex_sha env_b_denied False 3 ex_store3 0 ex_moves = (r, s', out, c)"
    by (rule prod_cases4)
  obtain r2 t' out2 c2 where
    run2: "run_split_moves env_b_denied [''in''] 3 ex_store3 {||} 0 ex_split_moves
      = (r2, t', out2, c2)"
    by (rule prod_cases4)
  note both = C5_moves_stop_at_first_failure
    [where sha = ex_sha and env = env_b_denied and verify = False and n_ops = 3
      and s = ex_store3 and ?c0.0 = 0 and ops = ex_moves and r = r and s' = s' and out = out
      and c = c and directory = "[''in'']" and created = "{||}" and sops = ex_split_moves
      and ?r2.0 = r2 and t' = t' and ?out2.0 = out2 and ?c2.0 = c2]
  have dist: "distinct (map op_src ex_moves)"
      "op_src ` set ex_moves \<inter> op_dest ` set ex_moves = {}"
    by (simp_all add: ex_moves_def op_src_def op_dest_def)
  have dist2: "distinct (map op_src ex_split_moves)"
      "op_src ` set ex_split_moves \<inter> op_dest ` set ex_split_moves = {}"
    by (simp_all add: ex_split_moves_def op_src_def op_dest_def)
  from mp [OF conjunct1 [OF both] run] obtain k s_k where
    k: "k \<le> length ex_moves" "c = 0 + k"
       "apply_steps (move_step ex_sha env_b_denied False) ex_store3 (take k ex_moves) = Some s_k"
       "op_src ` set ex_moves \<inter> op_dest ` set ex_moves = {}
        \<longrightarrow> (\<forall>j<k. files s' (op_dest (ex_moves ! j)) \<noteq> None
                \<and> files s' (op_src (ex_moves ! j)) = None)"
       "distinct (map op_src ex_moves) \<and> op_src ` set ex_moves \<inter> op_dest ` set ex_moves = {}
        \<longrightarrow> (\<forall>i. k \<le> i \<and> i < length ex_moves \<longrightarrow>
                  files s' (op_src (ex_moves ! i)) = files ex_store3 (op_src (ex_moves ! i)))"
    by blast
  from k dist have chain: "\<exists>k s_k. k \<le> length ex_moves \<and> c = 0 + k
      \<and> apply_steps (move_step ex_sha env_b_denied False) ex_store3 (take k ex_moves) = Some s_k
      \<and> (\<forall>j<k. files s' (op_dest (ex_moves ! j)) \<noteq> None
            \<and> files s' (op_src (ex_moves ! j)) = None)
      \<and> (\<forall>i. k \<le> i \<and> i < length ex_moves \<longrightarrow>
            files s' (op_src (ex_moves ! i)) = files ex_store3 (op_src (ex_moves ! i)))"
    by blast
  from mp [OF conjunct2 [OF both] run2] obtain k2 t_k created_k where
    k2: "k2 \<le> length ex_split_moves" "c2 = 0 + k2"
       "apply_steps (split_step env_b_denied [''in'']) (ex_store3, {||})
          (take k2 ex_split_moves) = Some (t_k, created_k)"
       "op_src ` set ex_split_moves \<inter> op_dest ` set ex_split_moves = {}
        \<longrightarrow> (\<forall>j<k2. files t' (op_dest (ex_split_moves ! j)) \<noteq> None
                \<and> files t' (op_src (ex_split_moves ! j)) = None)"
       "distinct (map op_src ex_split_moves)
          \<and> op_src ` set ex_split_moves \<inter> op_dest ` set ex_split_moves = {}
        \<longrightarrow> (\<forall>i. k2 \<le> i \<and> i < length ex_split_moves \<longrightarrow>
                  files t' (op_src (ex_split_moves ! i))
                    = files ex_store3 (op_src (ex_split_moves ! i)))"
    by blast
  from k2 dist2 have chain2: "\<exists>k s_k created_k. k \<le> length ex_split_moves \<and> c2 = 0 + k
      \<and> apply_steps (split_step env_b_denied [''in'']) (ex_store3, {||})
            (take k ex_split_moves) = Some (s_k, created_k)
      \<and> (\<forall>j<k. files t' (op_dest (ex_split_moves ! j)) \<noteq> None
            \<and> files t' (op_src (ex_split_moves ! j)) = None)
      \<and> (\<forall>i. k \<le> i \<and> i < length ex_split_moves \<longrightarrow>
            files t' (op_src (ex_split_moves ! i))
              = files ex_store3 (op_src (ex_split_moves ! i)))"
    by blast
  have ev: "run_moves ex_sha env_b_denied False 3 ex_store3 0 ex_moves
      = (Some (MoveFailed (OSError 13)),
         ex_store3\<lparr>files := (files ex_store3)([''in'', ''a''] := None, [''out'', ''a''] \<mapsto> [1])\<rparr>,
         [Moved [''in'', ''a''] [''out'', ''a''],
          Failed [''in'', ''b''] [''out'', ''b''] (OSError 13), Stopping 1 3], 1)"
    by (simp add: ex_moves_def move_defs ex_store3_def env_b_denied_def EXDEV_def)
  have ev2: "run_split_moves env_b_denied [''in''] 3 ex_store3 {||} 0 ex_split_moves
      = (Some (MoveFailed (OSError 13)),
         ex_store3\<lparr>dirs := insert [''in'', ''1''] (dirs ex_store3),
                   files := (files ex_store3)([''in'', ''a''] := None, [''in'', ''1'', ''a''] \<mapsto> [1])\<rparr>,
         [DirectoryHeader ''1'', Moved [''in'', ''a''] [''in'', ''1'', ''a''],
          Failed [''in'', ''b''] [''in'', ''1'', ''b''] (OSError 13), Stopping 1 3], 1)"
    by (simp add: ex_split_moves_def move_defs ensure_dir_def mkdir_p_def ex_store3_def
        env_b_denied_def EXDEV_def insert_absorb)
  have facts: "r = Some (MoveFailed (OSError 13)) \<and> c = 1
        \<and> out = [Moved [''in'', ''a''] [''out'', ''a''],
                  Failed [''in'', ''b''] [''out'', ''b''] (OSError 13), Stopping 1 3]
        \<and> files s' [''out'', ''a''] = Some [1] \<and> files s' [''in'', ''a''] = None
        \<and> files s' [''in'', ''b''] = Some [2, 2] \<and> files s' [''out'', ''b''] = None
        \<and> files s' [''in'', ''c''] = Some [3, 3, 3] \<and> files s' [''out'', ''c''] = None
        \<and> fst (finish (r, s', out, c)) = Exit 1"
  proof -
    from ev have "(r, s', out, c)
      = (Some (MoveFailed (OSError 13)),
         ex_store3\<lparr>files := (files ex_store3)([''in'', ''a''] := None, [''out'', ''a''] \<mapsto> [1])\<rparr>,
         [Moved [''in'', ''a''] [''out'', ''a''],
          Failed [''in'', ''b''] [''out'', ''b''] (OSError 13), Stopping 1 3], 1)"
      unfolding run .
    then have "r = Some (MoveFailed (OSError 13))" "c = 1"
      "s' = ex_store3\<lparr>files := (files ex_store3)([''in'', ''a''] := None, [''out'', ''a''] \<mapsto> [1])\<rparr>"
      "out = [Moved [''in'', ''a''] [''out'', ''a''],
          Failed [''in'', ''b''] [''out'', ''b''] (OSError 13), Stopping 1 3]"
      by simp_all
    then show ?thesis by (simp add: finish_def ex_store3_def)
  qed
  have facts2: "r2 = Some (MoveFailed (OSError 13)) \<and> c2 = 1
        \<and> out2 = [DirectoryHeader ''1'', Moved [''in'', ''a''] [''in'', ''1'', ''a''],
                  Failed [''in'', ''b''] [''in'', ''1'', ''b''] (OSError 13), Stopping 1 3]
        \<and> files t' [''in'', ''1'', ''a''] = Some [1] \<and> files t' [''in'', ''a''] = None
        \<and> files t' [''in'', ''b''] = Some [2, 2]
        \<and> files t' [''in'', ''c''] = Some [3, 3, 3] \<and> [''in'', ''2''] \<notin> dirs t'
        \<and> fst (finish (r2, t', out2, c2)) = Exit 1"
  proof -
    from ev2 have "(r2, t', out2, c2)
      = (Some (MoveFailed (OSError 13)),
         ex_store3\<lparr>dirs := insert [''in'', ''1''] (dirs ex_store3),
                   files := (files ex_store3)([''in'', ''a''] := None, [''in'', ''1'', ''a''] \<mapsto> [1])\<rparr>,
         [DirectoryHeader ''1'', Moved [''in'', ''a''] [''in'', ''1'', ''a''],
          Failed [''in'', ''b''] [''in'', ''1'', ''b''] (OSError 13), Stopping 1 3], 1)"
      unfolding run2 .
    then have "r2 = Some (MoveFailed (OSError 13))" "c2 = 1"
      "t' = ex_store3\<lparr>dirs := insert [''in'', ''1''] (dirs ex_store3),
                   files := (files ex_store3)([''in'', ''a''] := None, [''in'', ''1'', ''a''] \<mapsto> [1])\<rparr>"
      "out2 = [DirectoryHeader ''1'', Moved [''in'', ''a''] [''in'', ''1'', ''a''],
          Failed [''in'', ''b''] [''in'', ''1'', ''b''] (OSError 13), Stopping 1 3]"
      by simp_all
    then show ?thesis by (simp add: finish_def ex_store3_def)
  qed
  have one: "apply_steps (move_step ex_sha env_b_denied False) ex_store3 (take 1 ex_moves)
       = Some (ex_store3\<lparr>files := (files ex_store3)([''in'', ''a''] := None,
                                                      [''out'', ''a''] \<mapsto> [1])\<rparr>)"
    by (simp add: ex_moves_def move_step_def op_src_def op_dest_def move_defs ex_store3_def
        env_b_denied_def EXDEV_def)
  have two: "apply_steps (move_step ex_sha env_b_denied False) ex_store3 (take 2 ex_moves) = None"
    by (simp add: ex_moves_def move_step_def op_src_def op_dest_def move_defs ex_store3_def
        env_b_denied_def EXDEV_def)
  show ?thesis
    unfolding run run2 prod.case
    using facts chain dist one two facts2 chain2 dist2 by blast
qed

section \<open>Properties of the validation and of the exit status\<close>

lemma check_path_overlap_ok:
  "check_path_overlap resolve target_dir source_dirs = Inr ok \<longleftrightarrow>
     (\<forall>src \<in> set source_dirs.
        resolve target_dir \<noteq> resolve src
        \<and> \<not> prefix (resolve src) (resolve target_dir)
        \<and> \<not> prefix (resolve target_dir) (resolve src))"
  by (induction source_dirs) (auto simp: is_subpath_def Let_def)

lemma check_path_overlap_bad:
  assumes "src \<in> set source_dirs"
    and "resolve target_dir = resolve src \<or> prefix (resolve src) (resolve target_dir)
         \<or> prefix (resolve target_dir) (resolve src)"
  shows "\<exists>why. check_path_overlap resolve target_dir source_dirs = Inl why"
proof (cases "check_path_overlap resolve target_dir source_dirs")
  case (Inl why)
  then show ?thesis by blast
next
  case (Inr ok)
  with assms show ?thesis using check_path_overlap_ok [of resolve target_dir source_dirs ok]
    by auto
qed

lemma consolidate_main_overlap:
  assumes "src \<in> set source_dirs"
    and "resolve target_dir = resolve src \<or> prefix (resolve src) (resolve target_dir)
         \<or> prefix (resolve target_dir) (resolve src)"
  shows "consolidate_main sha env resolve root s target_dir source_dirs dry_run verify
           = (BadParameter, s, [])"
proof -
  from check_path_overlap_bad [OF assms] obtain why where
    "check_path_overlap resolve target_dir source_dirs = Inl why" by blast
  then show ?thesis by (simp add: consolidate_main_def)
qed

lemma consolidate_main_planned:
  assumes "source_dirs \<noteq> []"
    and "check_path_overlap resolve target_dir source_dirs = Inr ok"
    and "seed_claimed root target_dir {||} = Inr c0"
    and "(if dry_run then (Inr (), s) else mkdir_p s target_dir) = (Inr u, s1)"
    and "plan_sources root target_dir (c0, []) source_dirs = Inr (c1, operations)"
  shows "consolidate_main sha env resolve root s target_dir source_dirs dry_run verify
           = (if operations = [] \<or> dry_run then (Exit 0, s1, [])
              else finish (run_moves sha env verify (length operations) s1 0 operations))"
  using assms by (simp add: consolidate_main_def)

lemma split_main_bad_size:
  assumes "lookup root directory = Some (Dir readable entries)"
    and "match_size (strip split_size) = None"
  shows "split_main env to_int root s directory split_size dry_run = (BadParameter, s, [])"
  using assms by (simp add: split_main_def parse_size_def)

lemma split_main_no_directory:
  assumes "\<forall>readable entries. lookup root directory \<noteq> Some (Dir readable entries)"
  shows "split_main env to_int root s directory split_size dry_run = (Exit 1, s, [])"
  using assms by (auto simp: split_main_def split: option.splits node.splits)

lemma split_main_planned:
  assumes "lookup root directory = Some (Dir True entries)"
    and "match_size (strip split_size) = Some (num, unit)"
    and "to_int num (SIZE_UNITS unit) = Some max_size"
  shows "split_main env to_int root s directory split_size dry_run
           = (if max_size \<le> 0 then (Exit 1, s, [])
              else if list_files entries = [] \<or> dry_run then (Exit 0, s, [])
              else finish (run_split_moves env directory
                     (length (split_operations directory (find_max_numbered_dir entries)
                        (fst (pack (nat max_size) (list_files entries)))))
                     s {||} 0
                     (split_operations directory (find_max_numbered_dir entries)
                        (fst (pack (nat max_size) (list_files entries))))))"
  using assms by (simp add: split_main_def parse_size_def Let_def)

lemma split_main_overflow:
  assumes "lookup root directory = Some (Dir readable entries)"
    and "match_size (strip split_size) = Some (num, unit)"
    and "to_int num (SIZE_UNITS unit) = None"
  shows "split_main env to_int root s directory split_size dry_run
           = (Uncaught OverflowError, s, [])"
  using assms by (simp add: split_main_def parse_size_def)

text \<open>
  C9, as the code has it. An invalid combination of arguments ends the run before
  anything has changed or been printed, by \<open>typer.BadParameter\<close>, which the framework
  reports with exit status 2: in the consolidation tool no source at all, or a target
  that, all paths resolved, equals a source, lies inside one or contains one; in the
  split tool, on an existing directory, a size that the pattern does not match. The split
  tool ends with \<open>typer.Exit(1)\<close>, also before any change, when the directory is
  missing or not a directory (whatever the size string is) or when the size is not
  positive; and with an escaped \<open>OverflowError\<close>, status 1, when the number is too
  large for the conversion. With arguments that pass these checks, and when listing and
  planning raise nothing, the runs end with status 0 when there is nothing to move, in a
  dry run (which changes nothing), and when every move succeeds; they end with status 1
  when a move fails.
\<close>

theorem C9_invalid_arguments_fail_before_any_change:
  "(source_dirs = [] \<or>
    (\<exists>src \<in> set source_dirs.
       resolve target_dir = resolve src \<or> prefix (resolve src) (resolve target_dir)
       \<or> prefix (resolve target_dir) (resolve src)) \<longrightarrow>
      consolidate_main sha env resolve root s target_dir source_dirs dry_run verify
        = (BadParameter, s, []))
   \<and> (lookup root directory = Some (Dir readable entries)
       \<and> match_size (strip split_size) = None \<longrightarrow>
      split_main env to_int root s directory split_size dry_run = (BadParameter, s, []))
   \<and> exit_status BadParameter = 2
   \<and> ((\<forall>readable entries. lookup root directory \<noteq> Some (Dir readable entries)) \<longrightarrow>
      split_main env to_int root s directory split_size dry_run = (Exit 1, s, []))
   \<and> (source_dirs \<noteq> []
       \<and> check_path_overlap resolve target_dir source_dirs = Inr ok
       \<and> seed_claimed root target_dir {||} = Inr c0
       \<and> (if dry_run then (Inr (), s) else mkdir_p s target_dir) = (Inr u, s1)
       \<and> plan_sources root target_dir (c0, []) source_dirs = Inr (c1, operations) \<longrightarrow>
      consolidate_main sha env resolve root s target_dir source_dirs dry_run verify
        = (if operations = [] \<or> dry_run then (Exit 0, s1, [])
           else finish (run_moves sha env verify (length operations) s1 0 operations))
      \<and> (dry_run \<longrightarrow> s1 = s))
   \<and> (lookup root directory = Some (Dir True entries)
       \<and> match_size (strip split_size) = Some (num, unit)
       \<and> to_int num (SIZE_UNITS unit) = Some max_size \<longrightarrow>
      split_main env to_int root s directory split_size dry_run
        = (if max_size \<le> 0 then (Exit 1, s, [])
           else if list_files entries = [] \<or> dry_run then (Exit 0, s, [])
           else finish (run_split_moves env directory
                  (length (split_operations directory (find_max_numbered_dir entries)
                     (fst (pack (nat max_size) (list_files entries)))))
                  s {||} 0
                  (split_operations directory (find_max_numbered_dir entries)
                     (fst (pack (nat max_size) (list_files entries)))))))
   \<and> (lookup root directory = Some (Dir readable entries)
       \<and> match_size (strip split_size) = Some (num, unit)
       \<and> to_int num (SIZE_UNITS unit) = None \<longrightarrow>
      split_main env to_int root s directory split_size dry_run
        = (Uncaught OverflowError, s, []))
   \<and> exit_status (Uncaught OverflowError) = 1
   \<and> exit_status (fst (finish (None, s2, out, completed))) = 0
   \<and> exit_status (fst (finish (Some (MoveFailed e), s2, out, completed))) = 1"
proof (intro conjI impI)
  assume "source_dirs = [] \<or>
    (\<exists>src \<in> set source_dirs.
       resolve target_dir = resolve src \<or> prefix (resolve src) (resolve target_dir)
       \<or> prefix (resolve target_dir) (resolve src))"
  then show "consolidate_main sha env resolve root s target_dir source_dirs dry_run verify
        = (BadParameter, s, [])"
  proof
    assume "source_dirs = []"
    then show ?thesis by (simp add: consolidate_main_def)
  next
    assume "\<exists>src \<in> set source_dirs.
       resolve target_dir = resolve src \<or> prefix (resolve src) (resolve target_dir)
       \<or> prefix (resolve target_dir) (resolve src)"
    then show ?thesis using consolidate_main_overlap by blast
  qed
next
  assume "lookup root directory = Some (Dir readable entries)
       \<and> match_size (strip split_size) = None"
  then show "split_main env to_int root s directory split_size dry_run = (BadParameter, s, [])"
    using split_main_bad_size by blast
next
  assume "\<forall>readable entries. lookup root directory \<noteq> Some (Dir readable entries)"
  then show "split_main env to_int root s directory split_size dry_run = (Exit 1, s, [])"
    by (rule split_main_no_directory)
next
  assume a: "source_dirs \<noteq> []
       \<and> check_path_overlap resolve target_dir source_dirs = Inr ok
       \<and> seed_claimed root target_dir {||} = Inr c0
       \<and> (if dry_run then (Inr (), s) else mkdir_p s target_dir) = (Inr u, s1)
       \<and> plan_sources root target_dir (c0, []) source_dirs = Inr (c1, operations)"
  then show "consolidate_main sha env resolve root s target_dir source_dirs dry_run verify
        = (if operations = [] \<or> dry_run then (Exit 0, s1, [])
           else finish (run_moves sha env verify (length operations) s1 0 operations))"
    using consolidate_main_planned by blast
  show "s1 = s" if dry_run using a that by simp
next
  assume "lookup root directory = Some (Dir True entries)
       \<and> match_size (strip split_size) = Some (num, unit)
       \<and> to_int num (SIZE_UNITS unit) = Some max_size"
  then show "split_main env to_int root s directory split_size dry_run
        = (if max_size \<le> 0 then (Exit 1, s, [])
           else if list_files entries = [] \<or> dry_run then (Exit 0, s, [])
           else finish (run_split_moves env directory
                  (length (split_operations directory (find_max_numbered_dir entries)
                     (fst (pack (nat max_size) (list_files entries)))))
                  s {||} 0
                  (split_operations directory (find_max_numbered_dir entries)
                     (fst (pack (nat max_size) (list_files entries))))))"
    using split_main_planned by blast
next
  assume "lookup root directory = Some (Dir readable entries)
       \<and> match_size (strip split_size) = Some (num, unit)
       \<and> to_int num (SIZE_UNITS unit) = None"
  then show "split_main env to_int root s directory split_size dry_run
        = (Uncaught OverflowError, s, [])"
    using split_main_overflow by blast
qed (simp_all add: finish_def)

text \<open>
  The theorem at work: a target inside a source, and a size string without a number, on
  the example tree; neither run changes the store.
\<close>

theorem C9_invalid_arguments_fail_before_any_change_witness:
  "consolidate_main ex_sha env_same_fs id ex_tree ex_store [''s1'', ''sub''] [[''s2''], [''s1'']]
       False True = (BadParameter, ex_store, [])
   \<and> lookup ex_tree [''s1''] = Some (Dir True [(''photo.jpg'', File [1])])
   \<and> match_size (strip ''GB'') = None
   \<and> split_main env_same_fs ex_to_int ex_tree ex_store [''s1''] ''GB'' False
       = (BadParameter, ex_store, [])
   \<and> match_size (strip ''1 kb'') = Some (''1'', ''KB'')
   \<and> ex_to_int ''1'' (SIZE_UNITS ''KB'') = Some 1024
   \<and> split_main env_same_fs ex_to_int ex_tree ex_store [''s1''] ''1 kb'' True
       = (Exit 0, ex_store, [])
   \<and> match_size (strip ''1000000000000000000000'') = Some (''1000000000000000000000'', ''B'')
   \<and> ex_to_int ''1000000000000000000000'' (SIZE_UNITS ''B'') = None
   \<and> split_main env_same_fs ex_to_int ex_tree ex_store [''s1''] ''1000000000000000000000'' True
       = (Uncaught OverflowError, ex_store, [])"
proof -
  have h1: "[''s1''] \<in> set [[''s2''], [''s1'']]
      \<and> prefix (id [''s1'']) (id [''s1'', ''sub''])"
    by simp
  have h2: "lookup ex_tree [''s1''] = Some (Dir True [(''photo.jpg'', File [1])])"
    by (simp add: ex_tree_def)
  have h3: "match_size (strip ''GB'') = None"
    by (simp add: match_size_def strip_def is_space_def is_digit_def)
  have h4: "match_size (strip ''1 kb'') = Some (''1'', ''KB'')"
    by (simp add: match_size_def strip_def is_space_def is_digit_def upper_unit_def)
  have h5: "ex_to_int ''1'' (SIZE_UNITS ''KB'') = Some 1024"
    by (simp add: ex_to_int_def SIZE_UNITS_def digits_value_def digit_val_def)
  have h6: "match_size (strip ''1000000000000000000000'')
      = Some (''1000000000000000000000'', ''B'')"
    by (simp add: match_size_def strip_def is_space_def is_digit_def upper_unit_def)
  have h7: "ex_to_int ''1000000000000000000000'' (SIZE_UNITS ''B'') = None"
    by (simp add: ex_to_int_def)
  from C9_invalid_arguments_fail_before_any_change
    [where source_dirs = "[[''s2''], [''s1'']]" and resolve = id
      and target_dir = "[''s1'', ''sub'']" and sha = ex_sha and env = env_same_fs
      and root = ex_tree and s = ex_store and dry_run = False and verify = True
      and directory = "[''s1'']" and readable = True
      and entries = "[(''photo.jpg'', File [1])]" and split_size = "''GB''"
      and to_int = ex_to_int]
    h1 h2 h3
  have a: "consolidate_main ex_sha env_same_fs id ex_tree ex_store [''s1'', ''sub'']
       [[''s2''], [''s1'']] False True = (BadParameter, ex_store, [])"
    and b: "split_main env_same_fs ex_to_int ex_tree ex_store [''s1''] ''GB'' False
       = (BadParameter, ex_store, [])"
    by blast+
  from C9_invalid_arguments_fail_before_any_change
    [where root = ex_tree and s = ex_store and dry_run = True and env = env_same_fs
      and directory = "[''s1'']" and entries = "[(''photo.jpg'', File [1])]"
      and split_size = "''1 kb''" and to_int = ex_to_int and num = "''1''"
      and unit = "''KB''" and max_size = 1024]
    h2 h4 h5
  have c: "split_main env_same_fs ex_to_int ex_tree ex_store [''s1''] ''1 kb'' True
       = (Exit 0, ex_store, [])"
    by simp
  from C9_invalid_arguments_fail_before_any_change
    [where root = ex_tree and s = ex_store and dry_run = True and env = env_same_fs
      and directory = "[''s1'']" and readable = True
      and entries = "[(''photo.jpg'', File [1])]"
      and split_size = "''1000000000000000000000''" and to_int = ex_to_int
      and num = "''1000000000000000000000''" and unit = "''B''"]
    h2 h6 h7
  have d: "split_main env_same_fs ex_to_int ex_tree ex_store [''s1'']
       ''1000000000000000000000'' True = (Uncaught OverflowError, ex_store, [])"
    by blast
  from a b c d h2 h3 h4 h5 h6 h7 show ?thesis by simp
qed

text \<open>
  C9 as the claim words it fails on the exit status: a target that is a source, and a
  size string that the pattern does not match, end the run with the status of a usage
  error, 2, and not 1; and an invalid size string on a directory that does not exist ends
  it with status 1 through another path.
\<close>

theorem C9_usage_error_exits_with_2_counterexample:
  "exit_status (fst (consolidate_main ex_sha env_same_fs id ex_tree ex_store
       [''s1''] [[''s1'']] False False)) = 2
   \<and> exit_status (fst (split_main env_same_fs ex_to_int ex_tree ex_store
       [''s1''] ''GB'' False)) = 2
   \<and> split_main env_same_fs ex_to_int ex_tree ex_store [''nowhere''] ''GB'' False
       = (Exit 1, ex_store, [])"
  by (simp add: consolidate_main_def split_main_def parse_size_def match_size_def strip_def
      is_space_def is_digit_def ex_tree_def)

end
